theory Spec2Isabelle
  imports Main
begin


section \<open>The Linear plugin: issue extraction and linked-issue reconciliation\<close>

text \<open>
  A shallow embedding of the plugin's \<^verbatim>\<open>main\<close> package: the identifier extractor
  (\<^verbatim>\<open>issuePattern\<close>, \<^verbatim>\<open>extractIssues\<close>), the configuration parser (\<^verbatim>\<open>parseConfig\<close>), the
  template renderer (\<^verbatim>\<open>renderTemplate\<close>) and the post-publish hook (\<^verbatim>\<open>handlePostPublish\<close>,
  \<^verbatim>\<open>createReleaseIssue\<close>, \<^verbatim>\<open>processLinkedIssues\<close>) together with the client methods they call.
  A Go string is a sequence of bytes, here a \<^typ>\<open>string\<close>. Go's \<^verbatim>\<open>error\<close> values are
  represented by their message, the text that \<^verbatim>\<open>%v\<close> prints.
\<close>

subsection \<open>Bytes and character classes\<close>

text \<open>
  The classes of the regular expression are ASCII classes in Go's \<^verbatim>\<open>regexp\<close> syntax:
  \<^verbatim>\<open>[A-Z]\<close>, \<^verbatim>\<open>\d\<close> is \<^verbatim>\<open>[0-9]\<close>, and the word characters of \<^verbatim>\<open>\b\<close> are \<^verbatim>\<open>[0-9A-Za-z_]\<close>.
  Every byte of a multi-byte UTF-8 sequence is at least 128 and so in none of them.
\<close>

definition is_upper :: "char \<Rightarrow> bool" where
  "is_upper c = (65 \<le> (of_char c :: nat) \<and> (of_char c :: nat) \<le> 90)"

definition is_lower :: "char \<Rightarrow> bool" where
  "is_lower c = (97 \<le> (of_char c :: nat) \<and> (of_char c :: nat) \<le> 122)"

definition is_digit :: "char \<Rightarrow> bool" where
  "is_digit c = (48 \<le> (of_char c :: nat) \<and> (of_char c :: nat) \<le> 57)"

definition is_alnum :: "char \<Rightarrow> bool" where
  "is_alnum c = (is_upper c \<or> is_lower c \<or> is_digit c)"

definition is_word_char :: "char \<Rightarrow> bool" where
  "is_word_char c = (is_alnum c \<or> c = CHR ''_'')"

text \<open>The character before or after a position, \<open>None\<close> at either end of the text.\<close>

definition is_word_opt :: "char option \<Rightarrow> bool" where
  "is_word_opt p = (case p of None \<Rightarrow> False | Some c \<Rightarrow> is_word_char c)"

definition first :: "string \<Rightarrow> char option" where
  "first s = (case s of [] \<Rightarrow> None | x # _ \<Rightarrow> Some x)"

subsection \<open>The regular expression \<^verbatim>\<open>issuePattern\<close>\<close>

text \<open>
  \<^verbatim>\<open>var issuePattern = regexp.MustCompile(`\b([A-Z]{2,10})-(\d+)\b`)\<close>

  The pattern is a sequence of atoms: a word boundary, a literal byte, or a greedy bounded
  repetition of a character class (\<open>Rep cls lo hi\<close> is \<^verbatim>\<open>cls{lo,hi}\<close>, and \<^verbatim>\<open>cls{lo,}\<close> when
  \<open>hi\<close> is \<open>None\<close>). Go's \<^verbatim>\<open>regexp\<close> returns the match that a backtracking search finds first
  (leftmost, each repetition preferring more), which is what \<open>backtrack\<close> computes at one
  position: \<open>p\<close> is the byte before the position, \<open>s\<close> the text from it on, and the result
  holds the text consumed by each atom in turn.
\<close>

datatype atom = WordBoundary | Lit char | Rep "char \<Rightarrow> bool" nat "nat option"

fun backtrack :: "atom list \<Rightarrow> char option \<Rightarrow> string \<Rightarrow> string list option" where
  "backtrack [] p s = Some []"
| "backtrack (WordBoundary # as) p s =
     (if is_word_opt p \<noteq> is_word_opt (first s)
      then map_option (Cons []) (backtrack as p s) else None)"
| "backtrack (Lit c # as) p [] = None"
| "backtrack (Lit c # as) p (x # xs) =
     (if x = c then map_option (Cons [x]) (backtrack as (Some x) xs) else None)"
| "backtrack (Rep cls lo hi # as) p [] =
     (if lo = 0 then map_option (Cons []) (backtrack as p []) else None)"
| "backtrack (Rep cls lo hi # as) p (x # xs) =
     (case (if cls x \<and> hi \<noteq> Some 0
            then (case backtrack (Rep cls (lo - 1) (map_option (\<lambda>h. h - 1) hi) # as) (Some x) xs of
                    Some (g # gs) \<Rightarrow> Some ((x # g) # gs)
                  | _ \<Rightarrow> None)
            else None) of
        Some r \<Rightarrow> Some r
      | None \<Rightarrow> if lo = 0 then map_option (Cons []) (backtrack as p (x # xs)) else None)"

definition issuePattern :: "atom list" where
  "issuePattern =
     [WordBoundary, Rep is_upper 2 (Some 10), Lit CHR ''-'', Rep is_digit 1 None, WordBoundary]"

text \<open>
  \<^verbatim>\<open>FindAllStringSubmatch(commit, -1)\<close>: the successive non-overlapping matches, left to
  right. The search tries the current position and moves one byte on when the pattern does
  not match there; after a match it resumes at the match's end. (Go steps over an empty match
  by one character; this pattern never matches the empty text, see \<open>backtrack_issuePattern\<close>.)
\<close>

function find_all :: "char option \<Rightarrow> string \<Rightarrow> string list list" where
  "find_all p [] = (case backtrack issuePattern p [] of None \<Rightarrow> [] | Some gs \<Rightarrow> [gs])"
| "find_all p (x # xs) =
     (case backtrack issuePattern p (x # xs) of
        None \<Rightarrow> find_all (Some x) xs
      | Some gs \<Rightarrow>
          (let n = length (concat gs) in
           if n = 0 then gs # find_all (Some x) xs
           else gs # find_all (Some (last (concat gs))) (drop n (x # xs))))"
  by pat_completeness auto
termination
  by (relation "measure (\<lambda>(p, s). length s)") auto

text \<open>
  A submatch slice of this pattern has three entries: the whole match (\<^verbatim>\<open>match[0]\<close>), the
  letters (\<^verbatim>\<open>match[1]\<close>) and the digits (\<^verbatim>\<open>match[2]\<close>).
\<close>

type_synonym submatch = "string \<times> string \<times> string"

definition submatch_of :: "string list \<Rightarrow> submatch" where
  "submatch_of gs = (concat gs, gs ! 1, gs ! 3)"

definition FindAllStringSubmatch :: "string \<Rightarrow> submatch list" where
  "FindAllStringSubmatch s = map submatch_of (find_all None s)"

subsection \<open>\<^verbatim>\<open>extractIssues\<close>\<close>

text \<open>
  \<^verbatim>\<open>
  func extractIssues(commits []string, prefix string) []string {
      seen := make(map[string]bool)
      var issues []string
      for _, commit := range commits {
          matches := issuePattern.FindAllStringSubmatch(commit, -1)
          for _, match := range matches {
              if prefix == "" || strings.EqualFold(match[1], prefix) {
                  id := match[0]
                  if !seen[id] {
                      seen[id] = true
                      issues = append(issues, id)
                  }
              }
          }
      }
      return issues
  }
  \<close>
  \<^verbatim>\<open>strings.EqualFold\<close> (equality under Unicode simple case folding) is the standard library's;
  the model takes it as the argument \<open>EqualFold\<close>, so every result below holds for whatever
  comparison it is. \<open>equalFoldASCII\<close> is what it computes on ASCII text.
\<close>

definition seen_at :: "(string \<rightharpoonup> bool) \<Rightarrow> string \<Rightarrow> bool" where
  "seen_at seen k = (case seen k of None \<Rightarrow> False | Some b \<Rightarrow> b)"

definition extract_match ::
  "(string \<Rightarrow> string \<Rightarrow> bool) \<Rightarrow> string \<Rightarrow> submatch \<Rightarrow>
   (string \<rightharpoonup> bool) \<times> string list \<Rightarrow> (string \<rightharpoonup> bool) \<times> string list" where
  "extract_match EqualFold prefix match st =
     (case match of (m0, m1, m2) \<Rightarrow>
      case st of (seen, issues) \<Rightarrow>
        if prefix = [] \<or> EqualFold m1 prefix
        then (if \<not> seen_at seen m0 then (seen(m0 \<mapsto> True), issues @ [m0]) else (seen, issues))
        else (seen, issues))"

definition extractIssues :: "(string \<Rightarrow> string \<Rightarrow> bool) \<Rightarrow> string list \<Rightarrow> string \<Rightarrow> string list" where
  "extractIssues EqualFold commits prefix =
     snd (fold (\<lambda>commit. fold (extract_match EqualFold prefix) (FindAllStringSubmatch commit))
            commits (Map.empty, []))"

text \<open>The ASCII path of \<^verbatim>\<open>strings.EqualFold\<close>: bytes equal, or a letter and its other case.\<close>

definition fold_byte :: "char \<Rightarrow> char" where
  "fold_byte c = (if is_lower c then char_of (of_char c - (32 :: nat)) else c)"

fun equalFoldASCII :: "string \<Rightarrow> string \<Rightarrow> bool" where
  "equalFoldASCII [] [] = True"
| "equalFoldASCII (a # s) (b # t) = (fold_byte a = fold_byte b \<and> equalFoldASCII s t)"
| "equalFoldASCII _ _ = False"

subsection \<open>The words of the specification about identifiers\<close>

text \<open>
  An identifier: 2 to 10 uppercase ASCII letters, a hyphen, one or more decimal digits.
\<close>

definition issue_shape :: "string \<Rightarrow> bool" where
  "issue_shape t =
     (2 \<le> length (takeWhile is_upper t) \<and> length (takeWhile is_upper t) \<le> 10 \<and>
      (case dropWhile is_upper t of
         [] \<Rightarrow> False
       | c # d \<Rightarrow> c = CHR ''-'' \<and> d \<noteq> [] \<and> list_all is_digit d))"

text \<open>
  \<open>occurs_bounded inside s t\<close>: the text \<open>t\<close> occurs in \<open>s\<close> with, on either side, the end of
  \<open>s\<close> or a byte that is not \<open>inside\<close>.
\<close>

definition occurs_bounded :: "(char \<Rightarrow> bool) \<Rightarrow> string \<Rightarrow> string \<Rightarrow> bool" where
  "occurs_bounded inside s t =
     (\<exists>pre post. s = pre @ t @ post \<and>
        (pre = [] \<or> \<not> inside (last pre)) \<and> (post = [] \<or> \<not> inside (hd post)))"

text \<open>
  The identifiers that occur word-bounded in \<open>s\<close>, when \<open>p\<close> is the byte before \<open>s\<close>.
\<close>

definition tokens_from :: "char option \<Rightarrow> string \<Rightarrow> string set" where
  "tokens_from p s =
     {t. issue_shape t \<and>
         (\<exists>pre post. s = pre @ t @ post \<and>
            \<not> is_word_opt (if pre = [] then p else Some (last pre)) \<and>
            \<not> is_word_opt (first post))}"

text \<open>
  The candidates of a run, in the order the loops visit them: commits in the order supplied,
  the matches of one commit left to right, those that pass the prefix filter.
\<close>

definition candidates :: "(string \<Rightarrow> string \<Rightarrow> bool) \<Rightarrow> string list \<Rightarrow> string \<Rightarrow> string list" where
  "candidates EqualFold commits prefix =
     concat (map (\<lambda>commit. map fst (filter (\<lambda>(m0, m1, m2). prefix = [] \<or> EqualFold m1 prefix)
                                        (FindAllStringSubmatch commit))) commits)"

text \<open>Each element once, at the place of its first occurrence.\<close>

fun keep_first :: "'a list \<Rightarrow> 'a list" where
  "keep_first [] = []"
| "keep_first (x # xs) = x # removeAll x (keep_first xs)"

text \<open>The position of the first occurrence of \<open>a\<close> in \<open>xs\<close> (its length when there is none).\<close>

definition first_index :: "'a list \<Rightarrow> 'a \<Rightarrow> nat" where
  "first_index xs a = length (takeWhile (\<lambda>x. x \<noteq> a) xs)"


subsection \<open>Configuration\<close>

text \<open>
  The fields of \<^verbatim>\<open>Config\<close> keep their Go names. The fields of the other structs carry a
  prefix (\<open>ri_\<close> for \<^verbatim>\<open>ReleaseIssueConfig\<close>, \<open>state_\<close>, \<open>team_\<close>, \<open>issue_\<close>, \<open>in_\<close> for
  \<^verbatim>\<open>CreateIssueInput\<close>, \<open>td_\<close> for \<^verbatim>\<open>templateData\<close>), since several of them share names.
\<close>

record ReleaseIssueConfig =
  ri_Title :: string
  ri_Description :: string
  ri_Labels :: "string list"
  ri_Priority :: int
  ri_Assignee :: string

record Config =
  APIKey :: string
  TeamID :: string
  TeamKey :: string
  ProjectID :: string
  IssuePrefix :: string
  ReleasedState :: string
  CreateReleaseIssue :: bool
  ReleaseIssue :: ReleaseIssueConfig
  UpdateLinkedIssues :: bool
  AddReleaseComment :: bool
  CommentTemplate :: string

text \<open>A value of Go's \<^verbatim>\<open>any\<close> as a configuration map holds it.\<close>

datatype any =
    VNil
  | VBool bool
  | VInt int
  | VString string
  | VList "any list"
  | VMap "string \<Rightarrow> any option"

text \<open>
  Modelled from the spec: \<^verbatim>\<open>helpers.ConfigParser\<close> belongs to the plugin SDK and is not among
  the sources. The configuration is consumed from the host-supplied key/value map, with an
  environment-variable fallback where one is named, and otherwise the stated default:
  \<open>GetString\<close> returns the key's value when it is a non-empty string, else the named
  environment variable when it is set and non-empty, else the default; \<open>GetBool\<close> and
  \<open>GetInt\<close> return the key's value when it has that type, else the default. \<open>environ\<close> is the
  process environment.
\<close>

definition GetString ::
  "(string \<Rightarrow> string option) \<Rightarrow> (string \<Rightarrow> any option) \<Rightarrow> string \<Rightarrow> string \<Rightarrow> string \<Rightarrow> string" where
  "GetString environ raw key envVar defaultVal =
     (case raw key of
        Some (VString v) \<Rightarrow>
          if v \<noteq> [] then v
          else (case (if envVar \<noteq> [] then environ envVar else None) of
                  Some e \<Rightarrow> if e \<noteq> [] then e else defaultVal
                | None \<Rightarrow> defaultVal)
      | _ \<Rightarrow>
          (case (if envVar \<noteq> [] then environ envVar else None) of
             Some e \<Rightarrow> if e \<noteq> [] then e else defaultVal
           | None \<Rightarrow> defaultVal))"

definition GetBool :: "(string \<Rightarrow> any option) \<Rightarrow> string \<Rightarrow> bool \<Rightarrow> bool" where
  "GetBool raw key defaultVal = (case raw key of Some (VBool b) \<Rightarrow> b | _ \<Rightarrow> defaultVal)"

definition GetInt :: "(string \<Rightarrow> any option) \<Rightarrow> string \<Rightarrow> int \<Rightarrow> int" where
  "GetInt raw key defaultVal = (case raw key of Some (VInt i) \<Rightarrow> i | _ \<Rightarrow> defaultVal)"

definition newline :: string where
  "newline = [CHR 0x0A]"

definition defaultReleaseDescription :: string where
  "defaultReleaseDescription =
     ''## Release {{.Version}}'' @ newline @ newline @
     ''**Released:** {{.Date}}'' @ newline @
     ''**Tag:** {{.TagName}}'' @ newline @
     ''**Type:** {{.ReleaseType}}'' @ newline @ newline @
     ''### Changes'' @ newline @
     ''{{.ReleaseNotes}}''"

text \<open>The labels loop keeps the entries that are strings.\<close>

fun string_labels :: "any list \<Rightarrow> string list" where
  "string_labels [] = []"
| "string_labels (VString s # ls) = s # string_labels ls"
| "string_labels (_ # ls) = string_labels ls"

definition parseReleaseIssue ::
  "(string \<Rightarrow> string option) \<Rightarrow> (string \<Rightarrow> any option) \<Rightarrow> ReleaseIssueConfig" where
  "parseReleaseIssue environ raw =
     (case raw ''release_issue'' of
        Some (VMap releaseIssue) \<Rightarrow>
          \<lparr> ri_Title = GetString environ releaseIssue ''title'' [] ''Release {{.Version}}'',
            ri_Description = GetString environ releaseIssue ''description'' [] defaultReleaseDescription,
            ri_Labels = (case releaseIssue ''labels'' of
                           Some (VList labels) \<Rightarrow> string_labels labels
                         | _ \<Rightarrow> []),
            ri_Priority = GetInt releaseIssue ''priority'' 4,
            ri_Assignee = GetString environ releaseIssue ''assignee'' [] [] \<rparr>
      | _ \<Rightarrow>
          \<lparr> ri_Title = ''Release {{.Version}}'',
            ri_Description = defaultReleaseDescription,
            ri_Labels = [''release''],
            ri_Priority = 4,
            ri_Assignee = [] \<rparr>)"

text \<open>
  \<^verbatim>\<open>parseConfig\<close>: the fields from the parser, the release-issue block, and last
  \<^verbatim>\<open>if cfg.IssuePrefix == "" && cfg.TeamKey != "" { cfg.IssuePrefix = cfg.TeamKey }\<close>.
\<close>

definition parseConfig :: "(string \<Rightarrow> string option) \<Rightarrow> (string \<Rightarrow> any option) \<Rightarrow> Config" where
  "parseConfig environ raw =
     (let cfg = \<lparr> APIKey = GetString environ raw ''api_key'' ''LINEAR_API_KEY'' [],
                  TeamID = GetString environ raw ''team_id'' ''LINEAR_TEAM_ID'' [],
                  TeamKey = GetString environ raw ''team_key'' [] [],
                  ProjectID = GetString environ raw ''project_id'' [] [],
                  IssuePrefix = GetString environ raw ''issue_prefix'' [] [],
                  ReleasedState = GetString environ raw ''released_state'' [] ''Done'',
                  CreateReleaseIssue = GetBool raw ''create_release_issue'' True,
                  ReleaseIssue = parseReleaseIssue environ raw,
                  UpdateLinkedIssues = GetBool raw ''update_linked_issues'' True,
                  AddReleaseComment = GetBool raw ''add_release_comment'' True,
                  CommentTemplate = GetString environ raw ''comment_template'' [] ''Released in {{.Version}}'' \<rparr>
      in if IssuePrefix cfg = [] \<and> TeamKey cfg \<noteq> [] then cfg\<lparr>IssuePrefix := TeamKey cfg\<rparr> else cfg)"


subsection \<open>The tracker's data and the release context\<close>

record State =
  state_ID :: string
  state_Name :: string
  state_Type :: string

record Issue =
  issue_ID :: string
  issue_Identifier :: string
  issue_Title :: string
  issue_State :: State
  issue_URL :: string

record Team =
  team_ID :: string
  team_Key :: string
  team_Name :: string
  team_States :: "State list"

record CreateIssueInput =
  in_TeamID :: string
  in_Title :: string
  in_Description :: string
  in_Priority :: int
  in_ProjectID :: string
  in_AssigneeID :: string

text \<open>
  \<^verbatim>\<open>plugin.ReleaseContext\<close> and its commits are the SDK's types; the model keeps the fields
  that the plugin reads. \<^verbatim>\<open>Changes\<close> is a pointer, \<open>None\<close> when it is nil.
\<close>

record ConventionalCommit =
  Hash :: string
  Type :: string
  Description :: string

record CategorizedChanges =
  Features :: "ConventionalCommit list"
  Fixes :: "ConventionalCommit list"
  Breaking :: "ConventionalCommit list"
  Other :: "ConventionalCommit list"

record ReleaseContext =
  Version :: string
  TagName :: string
  Branch :: string
  ReleaseType :: string
  ReleaseNotes :: string
  CommitSHA :: string
  Changes :: "CategorizedChanges option"

record templateData =
  td_Version :: string
  td_TagName :: string
  td_Branch :: string
  td_ReleaseType :: string
  td_ReleaseNotes :: string
  td_Date :: string
  td_CommitSHA :: string

text \<open>
  \<^verbatim>\<open>plugin.ExecuteResponse\<close>; the post-publish hook sets no outputs, and the Go \<^verbatim>\<open>error\<close> that
  the handlers return beside it is always nil.
\<close>

record ExecuteResponse =
  Success :: bool
  Message :: string
  Error :: string

subsection \<open>Effects: the remote service, the clock, the libraries\<close>

text \<open>
  What a run does to the outside is a trace: the requests that the client sent (one per
  call of \<^verbatim>\<open>c.execute\<close>), each with the error that the client method returned for it (\<open>None\<close>
  when it succeeded), and the readings of the clock.
\<close>

datatype call =
    ExecGetTeam string
  | ExecGetTeams
  | ExecGetIssue string
  | ExecCreateIssue CreateIssueInput
  | ExecUpdateIssueState string string
  | ExecAddComment string string
  | TimeNow

type_synonym trace = "(call \<times> string option) list"

text \<open>
  Everything outside the plugin is a parameter, the \<open>world\<close>. The answers of the remote
  service and the clock may depend on all that happened before, so they take the trace so
  far. An answer of the service is the outcome of \<^verbatim>\<open>c.execute\<close> and of decoding its payload:
  an error, or the decoded payload. \<open>tmplParse\<close> and \<open>tmplExecute\<close> are \<^verbatim>\<open>text/template\<close>'s
  \<^verbatim>\<open>Parse\<close> (its error, if any) and \<^verbatim>\<open>Execute\<close> on the parsed template; \<open>stringsEqualFold\<close> is
  \<^verbatim>\<open>strings.EqualFold\<close>; \<open>timeNow\<close> is \<^verbatim>\<open>time.Now().Format("2006-01-02")\<close>.
\<close>

record world =
  tmplParse :: "string \<Rightarrow> string option"
  tmplExecute :: "string \<Rightarrow> templateData \<Rightarrow> string + string"
  stringsEqualFold :: "string \<Rightarrow> string \<Rightarrow> bool"
  timeNow :: "trace \<Rightarrow> string"
  doGetTeam :: "trace \<Rightarrow> string \<Rightarrow> string + Team"
  doGetTeams :: "trace \<Rightarrow> string + Team list"
  doGetIssue :: "trace \<Rightarrow> string \<Rightarrow> string + Issue"
  doCreateIssue :: "trace \<Rightarrow> CreateIssueInput \<Rightarrow> string + bool \<times> Issue"
  doUpdateIssueState :: "trace \<Rightarrow> string \<Rightarrow> string \<Rightarrow> string + bool"
  doAddComment :: "trace \<Rightarrow> string \<Rightarrow> string \<Rightarrow> string + bool"

subsection \<open>The client methods\<close>

text \<open>A client method's result, with the request appended to the trace.\<close>

definition err_of :: "string + 'a \<Rightarrow> string option" where
  "err_of r = (case r of Inl e \<Rightarrow> Some e | Inr _ \<Rightarrow> None)"

definition sent :: "call \<Rightarrow> string + 'a \<Rightarrow> trace \<Rightarrow> (string + 'a) \<times> trace" where
  "sent c r tr = (r, tr @ [(c, err_of r)])"

definition quote :: string where
  "quote = [CHR 0x27]"

text \<open>
  \<^verbatim>\<open>GetTeam\<close>: by id when one is given; else by key, scanning all teams for an equal key;
  else an error without any request.
\<close>

definition GetTeam :: "world \<Rightarrow> trace \<Rightarrow> string \<Rightarrow> string \<Rightarrow> (string + Team) \<times> trace" where
  "GetTeam w tr teamID teamKey =
     (if teamID \<noteq> [] then sent (ExecGetTeam teamID) (doGetTeam w tr teamID) tr
      else if teamKey \<noteq> [] then
        sent ExecGetTeams
          (case doGetTeams w tr of
             Inl e \<Rightarrow> Inl e
           | Inr teams \<Rightarrow>
               (case find (\<lambda>t. team_Key t = teamKey) teams of
                  Some t \<Rightarrow> Inr t
                | None \<Rightarrow> Inl (''team with key '' @ quote @ teamKey @ quote @ '' not found'')))
          tr
      else (Inl ''either team_id or team_key is required'', tr))"

text \<open>\<^verbatim>\<open>GetIssueByIdentifier\<close>: an issue with an empty id counts as not found.\<close>

definition GetIssueByIdentifier :: "world \<Rightarrow> trace \<Rightarrow> string \<Rightarrow> (string + Issue) \<times> trace" where
  "GetIssueByIdentifier w tr identifier =
     sent (ExecGetIssue identifier)
       (case doGetIssue w tr identifier of
          Inl e \<Rightarrow> Inl e
        | Inr issue \<Rightarrow>
            if issue_ID issue = [] then Inl (''issue '' @ identifier @ '' not found'')
            else Inr issue)
       tr"

definition CreateIssue :: "world \<Rightarrow> trace \<Rightarrow> CreateIssueInput \<Rightarrow> (string + Issue) \<times> trace" where
  "CreateIssue w tr input =
     sent (ExecCreateIssue input)
       (case doCreateIssue w tr input of
          Inl e \<Rightarrow> Inl e
        | Inr (success, issue) \<Rightarrow> if \<not> success then Inl ''failed to create issue'' else Inr issue)
       tr"

definition UpdateIssueState :: "world \<Rightarrow> trace \<Rightarrow> string \<Rightarrow> string \<Rightarrow> (string + unit) \<times> trace" where
  "UpdateIssueState w tr issueID stateID =
     sent (ExecUpdateIssueState issueID stateID)
       (case doUpdateIssueState w tr issueID stateID of
          Inl e \<Rightarrow> Inl e
        | Inr success \<Rightarrow> if \<not> success then Inl ''failed to update issue state'' else Inr ())
       tr"

definition AddComment :: "world \<Rightarrow> trace \<Rightarrow> string \<Rightarrow> string \<Rightarrow> (string + unit) \<times> trace" where
  "AddComment w tr issueID body =
     sent (ExecAddComment issueID body)
       (case doAddComment w tr issueID body of
          Inl e \<Rightarrow> Inl e
        | Inr success \<Rightarrow> if \<not> success then Inl ''failed to add comment'' else Inr ())
       tr"

subsection \<open>\<^verbatim>\<open>renderTemplate\<close>\<close>

text \<open>
  \<^verbatim>\<open>
  func renderTemplate(tmplStr string, ctx plugin.ReleaseContext) (string, error) {
      tmpl, err := template.New("").Parse(tmplStr)
      if err != nil { return "", err }
      data := templateData{ Version: ctx.Version, ..., Date: time.Now().Format("2006-01-02"), ... }
      var buf bytes.Buffer
      if err := tmpl.Execute(&buf, data); err != nil { return "", err }
      return buf.String(), nil
  }
  \<close>
  The text returned beside an error is always empty, so the pair is a sum here.
\<close>

definition renderTemplate :: "world \<Rightarrow> trace \<Rightarrow> string \<Rightarrow> ReleaseContext \<Rightarrow> (string + string) \<times> trace" where
  "renderTemplate w tr tmplStr ctx =
     (case tmplParse w tmplStr of
        Some e \<Rightarrow> (Inl e, tr)
      | None \<Rightarrow>
          (let data = \<lparr> td_Version = Version ctx,
                        td_TagName = TagName ctx,
                        td_Branch = Branch ctx,
                        td_ReleaseType = ReleaseType ctx,
                        td_ReleaseNotes = ReleaseNotes ctx,
                        td_Date = timeNow w tr,
                        td_CommitSHA = CommitSHA ctx \<rparr>
           in (tmplExecute w tmplStr data, tr @ [(TimeNow, None)])))"

text \<open>\<^verbatim>\<open>title, _ := renderTemplate(...)\<close>: the text, empty when rendering failed.\<close>

definition text_of :: "string + string \<Rightarrow> string" where
  "text_of r = (case r of Inl _ \<Rightarrow> [] | Inr s \<Rightarrow> s)"

subsection \<open>Formatting\<close>

text \<open>\<^verbatim>\<open>strings.Join\<close>, and \<^verbatim>\<open>%d\<close> of a count.\<close>

fun Join :: "string list \<Rightarrow> string \<Rightarrow> string" where
  "Join [] sep = []"
| "Join [x] sep = x"
| "Join (x # y # ys) sep = x @ sep @ Join (y # ys) sep"

definition digit_char :: "nat \<Rightarrow> char" where
  "digit_char d = char_of (48 + d)"

fun decimal :: "nat \<Rightarrow> string" where
  "decimal n = (if n < 10 then [digit_char n] else decimal (n div 10) @ [digit_char (n mod 10)])"

declare decimal.simps [simp del]


subsection \<open>\<^verbatim>\<open>createReleaseIssue\<close>\<close>

text \<open>
  \<^verbatim>\<open>
  title, err := renderTemplate(cfg.ReleaseIssue.Title, releaseCtx)
  if err != nil { return nil, fmt.Errorf("failed to render title template: %w", err) }
  description, err := renderTemplate(cfg.ReleaseIssue.Description, releaseCtx)
  if err != nil { return nil, fmt.Errorf("failed to render description template: %w", err) }
  input := CreateIssueInput{TeamID: team.ID, Title: title, Description: description,
                            Priority: cfg.ReleaseIssue.Priority}
  if cfg.ProjectID != "" { input.ProjectID = cfg.ProjectID }
  return client.CreateIssue(ctx, input)
  \<close>
\<close>

definition createReleaseIssue ::
  "world \<Rightarrow> Config \<Rightarrow> ReleaseContext \<Rightarrow> Team \<Rightarrow> trace \<Rightarrow> (string + Issue) \<times> trace" where
  "createReleaseIssue w cfg releaseCtx team tr =
     (case renderTemplate w tr (ri_Title (ReleaseIssue cfg)) releaseCtx of
        (Inl e, tr1) \<Rightarrow> (Inl (''failed to render title template: '' @ e), tr1)
      | (Inr title, tr1) \<Rightarrow>
          (case renderTemplate w tr1 (ri_Description (ReleaseIssue cfg)) releaseCtx of
             (Inl e, tr2) \<Rightarrow> (Inl (''failed to render description template: '' @ e), tr2)
           | (Inr description, tr2) \<Rightarrow>
               CreateIssue w tr2
                 \<lparr> in_TeamID = team_ID team,
                   in_Title = title,
                   in_Description = description,
                   in_Priority = ri_Priority (ReleaseIssue cfg),
                   in_ProjectID = (if ProjectID cfg \<noteq> [] then ProjectID cfg else []),
                   in_AssigneeID = [] \<rparr>))"

subsection \<open>\<^verbatim>\<open>processLinkedIssues\<close>\<close>

text \<open>
  The search for the released state: the id of the first state whose name equals the
  configured one under \<^verbatim>\<open>EqualFold\<close>, the empty text when there is none.
  \<^verbatim>\<open>
  for _, state := range team.States {
      if strings.EqualFold(state.Name, cfg.ReleasedState) { releasedStateID = state.ID; break }
  }
  \<close>
\<close>

fun find_released :: "(string \<Rightarrow> string \<Rightarrow> bool) \<Rightarrow> State list \<Rightarrow> string \<Rightarrow> string" where
  "find_released ef [] name = []"
| "find_released ef (state # states) name =
     (if ef (state_Name state) name then state_ID state else find_released ef states name)"

text \<open>
  What the function does before its loop: the released state's id with the warning when
  it is not found, and the comment rendered once, with the warning and
  \<^verbatim>\<open>cfg.AddReleaseComment = false\<close> when rendering fails. The result is the state id, the
  comment, the warnings so far, the configuration as it now is, and the trace.
\<close>

definition linked_setup ::
  "world \<Rightarrow> Config \<Rightarrow> ReleaseContext \<Rightarrow> Team \<Rightarrow> trace \<Rightarrow>
   string \<times> string \<times> string list \<times> Config \<times> trace" where
  "linked_setup w cfg releaseCtx team tr =
     (let releasedStateID =
            (if UpdateLinkedIssues cfg \<and> ReleasedState cfg \<noteq> []
             then find_released (stringsEqualFold w) (team_States team) (ReleasedState cfg)
             else []);
          errs =
            (if UpdateLinkedIssues cfg \<and> ReleasedState cfg \<noteq> [] \<and> releasedStateID = []
             then [''State '' @ quote @ ReleasedState cfg @ quote @ '' not found in team workflow'']
             else [])
      in if AddReleaseComment cfg
         then (case renderTemplate w tr (CommentTemplate cfg) releaseCtx of
                 (Inl e, tr1) \<Rightarrow>
                   (releasedStateID, [], errs @ [''Failed to render comment template: '' @ e],
                    cfg\<lparr>AddReleaseComment := False\<rparr>, tr1)
               | (Inr comment, tr1) \<Rightarrow> (releasedStateID, comment, errs, cfg, tr1))
         else (releasedStateID, [], errs, cfg, tr))"

text \<open>The variables of the loop: the two counters, the warnings and the trace.\<close>

record loop_state =
  updated :: nat
  commented :: nat
  errs :: "string list"
  events :: trace

text \<open>
  The body of \<^verbatim>\<open>for _, issueID := range issueIDs\<close>:
  \<^verbatim>\<open>
  issue, err := client.GetIssueByIdentifier(ctx, issueID)
  if err != nil {
      errs = append(errs, fmt.Sprintf("Issue %s not found: %v", issueID, err))
      continue
  }
  if cfg.UpdateLinkedIssues && releasedStateID != "" {
      if err := client.UpdateIssueState(ctx, issue.ID, releasedStateID); err != nil {
          errs = append(errs, fmt.Sprintf("Failed to update %s: %v", issueID, err))
      } else { updated++ }
  }
  if cfg.AddReleaseComment && comment != "" {
      if err := client.AddComment(ctx, issue.ID, comment); err != nil {
          errs = append(errs, fmt.Sprintf("Failed to add comment to %s: %v", issueID, err))
      } else { commented++ }
  }
  \<close>
\<close>

definition update_step :: "world \<Rightarrow> Config \<Rightarrow> string \<Rightarrow> string \<Rightarrow> Issue \<Rightarrow> loop_state \<Rightarrow> loop_state" where
  "update_step w cfg releasedStateID issueID issue st =
     (if UpdateLinkedIssues cfg \<and> releasedStateID \<noteq> []
      then (case UpdateIssueState w (events st) (issue_ID issue) releasedStateID of
              (Inl e, tr) \<Rightarrow>
                st\<lparr>errs := errs st @ [''Failed to update '' @ issueID @ '': '' @ e], events := tr\<rparr>
            | (Inr _, tr) \<Rightarrow> st\<lparr>updated := updated st + 1, events := tr\<rparr>)
      else st)"

definition comment_step :: "world \<Rightarrow> Config \<Rightarrow> string \<Rightarrow> string \<Rightarrow> Issue \<Rightarrow> loop_state \<Rightarrow> loop_state" where
  "comment_step w cfg comment issueID issue st =
     (if AddReleaseComment cfg \<and> comment \<noteq> []
      then (case AddComment w (events st) (issue_ID issue) comment of
              (Inl e, tr) \<Rightarrow>
                st\<lparr>errs := errs st @ [''Failed to add comment to '' @ issueID @ '': '' @ e],
                   events := tr\<rparr>
            | (Inr _, tr) \<Rightarrow> st\<lparr>commented := commented st + 1, events := tr\<rparr>)
      else st)"

definition processIssue :: "world \<Rightarrow> Config \<Rightarrow> string \<Rightarrow> string \<Rightarrow> string \<Rightarrow> loop_state \<Rightarrow> loop_state" where
  "processIssue w cfg releasedStateID comment issueID st =
     (case GetIssueByIdentifier w (events st) issueID of
        (Inl e, tr) \<Rightarrow>
          st\<lparr>errs := errs st @ [''Issue '' @ issueID @ '' not found: '' @ e], events := tr\<rparr>
      | (Inr issue, tr) \<Rightarrow>
          comment_step w cfg comment issueID issue
            (update_step w cfg releasedStateID issueID issue (st\<lparr>events := tr\<rparr>)))"

text \<open>
  The function returns the counters and the warnings; the model returns beside them the
  configuration, which the function changes through its pointer, and the trace.
\<close>

definition processLinkedIssues ::
  "world \<Rightarrow> Config \<Rightarrow> ReleaseContext \<Rightarrow> Team \<Rightarrow> string list \<Rightarrow> trace \<Rightarrow>
   nat \<times> nat \<times> string list \<times> Config \<times> trace" where
  "processLinkedIssues w cfg releaseCtx team issueIDs tr =
     (case linked_setup w cfg releaseCtx team tr of
        (releasedStateID, comment, errs0, cfg1, tr1) \<Rightarrow>
          (let st = fold (processIssue w cfg1 releasedStateID comment) issueIDs
                      \<lparr>updated = 0, commented = 0, errs = errs0, events = tr1\<rparr>
           in (updated st, commented st, errs st, cfg1, events st)))"

subsection \<open>\<^verbatim>\<open>handlePostPublish\<close>\<close>

text \<open>
  The descriptions of the commits, bucket after bucket: features, fixes, breaking, other.
\<close>

definition commitMessages :: "ReleaseContext \<Rightarrow> string list" where
  "commitMessages releaseCtx =
     (case Changes releaseCtx of
        None \<Rightarrow> []
      | Some ch \<Rightarrow>
          map Description (Features ch) @ map Description (Fixes ch) @
          map Description (Breaking ch) @ map Description (Other ch))"

definition failure :: "string \<Rightarrow> ExecuteResponse" where
  "failure e = \<lparr> Success = False, Message = [], Error = e \<rparr>"

definition success :: "string list \<Rightarrow> ExecuteResponse" where
  "success results = \<lparr> Success = True, Message = Join results ''; '', Error = [] \<rparr>"

text \<open>The dry run renders and reports; it drops the renderer's errors.\<close>

definition dry_run :: "world \<Rightarrow> Config \<Rightarrow> ReleaseContext \<Rightarrow> string list \<times> trace" where
  "dry_run w cfg releaseCtx =
     (let (results1, tr1) =
            (if CreateReleaseIssue cfg
             then (case renderTemplate w [] (ri_Title (ReleaseIssue cfg)) releaseCtx of
                     (title, tr) \<Rightarrow> ([''Would create release issue: '' @ text_of title], tr))
             else ([], []));
          results2 =
            (if UpdateLinkedIssues cfg
             then results1 @ [''Would update linked issues to state: '' @ ReleasedState cfg]
             else results1)
      in if AddReleaseComment cfg
         then (case renderTemplate w tr1 (CommentTemplate cfg) releaseCtx of
                 (comment, tr) \<Rightarrow>
                   (results2 @ [''Would add comment to linked issues: '' @ text_of comment], tr))
         else (results2, tr1))"

text \<open>
  The part after the release issue: extraction and reconciliation, then the summary.
\<close>

definition reconcile ::
  "world \<Rightarrow> Config \<Rightarrow> ReleaseContext \<Rightarrow> Team \<Rightarrow> string list \<Rightarrow> trace \<Rightarrow> string list \<times> trace" where
  "reconcile w cfg releaseCtx team results tr =
     (if UpdateLinkedIssues cfg \<or> AddReleaseComment cfg
      then (let issues = extractIssues (stringsEqualFold w) (commitMessages releaseCtx) (IssuePrefix cfg)
            in if issues \<noteq> []
               then (case processLinkedIssues w cfg releaseCtx team issues tr of
                       (n_updated, n_commented, warnings, cfg1, tr1) \<Rightarrow>
                         (results
                          @ (if n_updated > 0
                             then [''Updated '' @ decimal n_updated @ '' issue(s) to '' @ quote
                                   @ ReleasedState cfg1 @ quote]
                             else [])
                          @ (if n_commented > 0
                             then [''Added release comment to '' @ decimal n_commented @ '' issue(s)'']
                             else [])
                          @ map (\<lambda>e. ''Warning: '' @ e) warnings,
                          tr1))
               else (results, tr))
      else (results, tr))"

definition handlePostPublish ::
  "world \<Rightarrow> Config \<Rightarrow> ReleaseContext \<Rightarrow> bool \<Rightarrow> ExecuteResponse \<times> trace" where
  "handlePostPublish w cfg releaseCtx dryRun =
     (if dryRun
      then (case dry_run w cfg releaseCtx of (results, tr) \<Rightarrow> (success results, tr))
      else (case GetTeam w [] (TeamID cfg) (TeamKey cfg) of
              (Inl e, tr1) \<Rightarrow> (failure (''Failed to get team: '' @ e), tr1)
            | (Inr team, tr1) \<Rightarrow>
                (case (if CreateReleaseIssue cfg
                       then (case createReleaseIssue w cfg releaseCtx team tr1 of
                               (Inl e, tr2) \<Rightarrow> Inl (failure (''Failed to create release issue: '' @ e), tr2)
                             | (Inr issue, tr2) \<Rightarrow>
                                 Inr ([''Created release issue: '' @ issue_Identifier issue
                                       @ '' ('' @ issue_URL issue @ '')''], tr2))
                       else Inr ([], tr1)) of
                   Inl stop \<Rightarrow> stop
                 | Inr (results, tr2) \<Rightarrow>
                     (case reconcile w cfg releaseCtx team results tr2 of
                        (results', tr3) \<Rightarrow>
                          (success (if results' = [] then [''No actions taken''] else results'), tr3)))))"


subsection \<open>The words of the specification about reconciliation\<close>

text \<open>
  One attempted operation of the loop, as the specification describes it: when it is
  active, one request, which either succeeds and counts, or fails and leaves a warning; when
  it is not, nothing.
\<close>

definition attempt :: "bool \<Rightarrow> call \<Rightarrow> string \<Rightarrow> trace \<Rightarrow> nat \<Rightarrow> string list \<Rightarrow> bool" where
  "attempt active c msg evs n ws =
     (if active
      then (evs = [(c, None)] \<and> n = 1 \<and> ws = []) \<or>
           (\<exists>e. evs = [(c, Some e)] \<and> n = 0 \<and> ws = [msg @ e])
      else evs = [] \<and> n = 0 \<and> ws = [])"

text \<open>
  What one identifier contributes: its requests, the two increments and its warnings.
  Either the fetch fails, and there is that one request and one warning; or it succeeds, and
  the state update and the comment are each attempted on the fetched issue, the comment
  whatever the outcome of the update.
\<close>

definition issue_block ::
  "bool \<Rightarrow> string \<Rightarrow> bool \<Rightarrow> string \<Rightarrow> string \<Rightarrow> trace \<times> nat \<times> nat \<times> string list \<Rightarrow> bool" where
  "issue_block updating releasedStateID commenting comment issueID b =
     (case b of (evs, n_upd, n_com, ws) \<Rightarrow>
        (\<exists>e. evs = [(ExecGetIssue issueID, Some e)] \<and> n_upd = 0 \<and> n_com = 0 \<and>
              ws = [''Issue '' @ issueID @ '' not found: '' @ e]) \<or>
        (\<exists>iid evsU evsC wsU wsC.
            evs = (ExecGetIssue issueID, None) # evsU @ evsC \<and> ws = wsU @ wsC \<and>
            attempt updating (ExecUpdateIssueState iid releasedStateID)
              (''Failed to update '' @ issueID @ '': '') evsU n_upd wsU \<and>
            attempt commenting (ExecAddComment iid comment)
              (''Failed to add comment to '' @ issueID @ '': '') evsC n_com wsC))"

definition block_events :: "trace \<times> nat \<times> nat \<times> string list \<Rightarrow> trace" where
  "block_events b = fst b"

definition block_updated :: "trace \<times> nat \<times> nat \<times> string list \<Rightarrow> nat" where
  "block_updated b = fst (snd b)"

definition block_commented :: "trace \<times> nat \<times> nat \<times> string list \<Rightarrow> nat" where
  "block_commented b = fst (snd (snd b))"

definition block_warnings :: "trace \<times> nat \<times> nat \<times> string list \<Rightarrow> string list" where
  "block_warnings b = snd (snd (snd b))"

text \<open>Kinds of requests, and of warnings.\<close>

fun is_update :: "call \<Rightarrow> bool" where
  "is_update (ExecUpdateIssueState _ _) = True"
| "is_update _ = False"

fun is_comment :: "call \<Rightarrow> bool" where
  "is_comment (ExecAddComment _ _) = True"
| "is_comment _ = False"

fun is_fetch :: "call \<Rightarrow> bool" where
  "is_fetch (ExecGetIssue _) = True"
| "is_fetch _ = False"

text \<open>Some state of the team has the name, as \<^verbatim>\<open>EqualFold\<close> compares.\<close>

fun has_state :: "(string \<Rightarrow> string \<Rightarrow> bool) \<Rightarrow> string \<Rightarrow> State list \<Rightarrow> bool" where
  "has_state ef name [] = False"
| "has_state ef name (state # states) = (ef (state_Name state) name \<or> has_state ef name states)"

definition ok_fetch :: "call \<times> string option \<Rightarrow> bool" where
  "ok_fetch e = (is_fetch (fst e) \<and> snd e = None)"

definition starts_with :: "string \<Rightarrow> string \<Rightarrow> bool" where
  "starts_with p s = (take (length p) s = p)"

text \<open>The requests of the reconciliation of linked issues.\<close>

definition is_linked_call :: "call \<Rightarrow> bool" where
  "is_linked_call c = (is_fetch c \<or> is_update c \<or> is_comment c)"

text \<open>
  The release issue fails: rendering its title fails, or else rendering its description
  fails, or else the request to create it fails.
\<close>

definition release_issue_fails :: "world \<Rightarrow> Config \<Rightarrow> ReleaseContext \<Rightarrow> Team \<Rightarrow> trace \<Rightarrow> bool" where
  "release_issue_fails w cfg releaseCtx team tr =
     (case renderTemplate w tr (ri_Title (ReleaseIssue cfg)) releaseCtx of
        (Inl _, _) \<Rightarrow> True
      | (Inr title, tr1) \<Rightarrow>
          (case renderTemplate w tr1 (ri_Description (ReleaseIssue cfg)) releaseCtx of
             (Inl _, _) \<Rightarrow> True
           | (Inr description, tr2) \<Rightarrow>
               isl (fst (CreateIssue w tr2
                 \<lparr> in_TeamID = team_ID team,
                   in_Title = title,
                   in_Description = description,
                   in_Priority = ri_Priority (ReleaseIssue cfg),
                   in_ProjectID = (if ProjectID cfg \<noteq> [] then ProjectID cfg else []),
                   in_AssigneeID = [] \<rparr>))))"


subsection \<open>An example world\<close>

text \<open>
  A team with three workflow states, three issues of which \<^verbatim>\<open>ENG-2\<close> is unknown to the
  service and \<^verbatim>\<open>ENG-3\<close> cannot be moved, a service that creates the release issue of version
  1.2.3 only, and a template engine that knows the two default templates and \<^verbatim>\<open>{{.Branch}}\<close>,
  rejects \<^verbatim>\<open>{{\<close> as malformed and takes any other text literally.
\<close>

definition example_states :: "State list" where
  "example_states =
     [\<lparr>state_ID = ''s1'', state_Name = ''Backlog'', state_Type = ''backlog''\<rparr>,
      \<lparr>state_ID = ''s2'', state_Name = ''In Progress'', state_Type = ''started''\<rparr>,
      \<lparr>state_ID = ''s3'', state_Name = ''Done'', state_Type = ''completed''\<rparr>]"

definition example_team :: Team where
  "example_team =
     \<lparr>team_ID = ''team-1'', team_Key = ''ENG'', team_Name = ''Engineering'',
      team_States = example_states\<rparr>"

definition example_issue :: "string \<Rightarrow> string \<Rightarrow> Issue" where
  "example_issue i ident =
     \<lparr>issue_ID = i, issue_Identifier = ident, issue_Title = ''An issue'',
      issue_State = \<lparr>state_ID = ''s2'', state_Name = ''In Progress'', state_Type = ''started''\<rparr>,
      issue_URL = ''https://linear.app/issue/'' @ ident\<rparr>"

definition example_world :: world where
  "example_world =
     \<lparr>tmplParse = (\<lambda>t. if t = ''{{'' then Some ''unclosed action'' else None),
      tmplExecute = (\<lambda>t d.
         if t = ''Release {{.Version}}'' then Inr (''Release '' @ td_Version d)
         else if t = ''Released in {{.Version}}'' then Inr (''Released in '' @ td_Version d)
         else if t = ''{{.Branch}}'' then Inr (td_Branch d)
         else Inr t),
      stringsEqualFold = equalFoldASCII,
      timeNow = (\<lambda>tr. ''2024-12-19''),
      doGetTeam = (\<lambda>tr i. if i = ''team-1'' then Inr example_team
                            else Inl ''GraphQL error: Entity not found''),
      doGetTeams = (\<lambda>tr. Inr [example_team]),
      doGetIssue = (\<lambda>tr ident.
         if ident = ''ENG-1'' then Inr (example_issue ''id-1'' ident)
         else if ident = ''ENG-3'' then Inr (example_issue ''id-3'' ident)
         else Inr (example_issue [] [])),
      doCreateIssue = (\<lambda>tr input.
         if in_Title input = ''Release 1.2.3'' then Inr (True, example_issue ''id-9'' ''ENG-9'')
         else Inr (False, example_issue [] [])),
      doUpdateIssueState = (\<lambda>tr i s. if i = ''id-3'' then Inl ''GraphQL error: forbidden''
                                        else Inr True),
      doAddComment = (\<lambda>tr i body. Inr True)\<rparr>"

definition example_config :: Config where
  "example_config =
     (parseConfig Map.empty [''team_id'' \<mapsto> VString ''team-1'', ''team_key'' \<mapsto> VString ''ENG''])"

text \<open>A configuration whose released state is not one of the team's.\<close>

definition example_config_released :: Config where
  "example_config_released =
     (parseConfig Map.empty
        [''team_id'' \<mapsto> VString ''team-1'', ''team_key'' \<mapsto> VString ''ENG'',
         ''released_state'' \<mapsto> VString ''Released''])"

text \<open>
  A configuration whose released state is not one of the team's and whose comment template
  is the branch name, which renders to the empty text on a release without a branch.
\<close>

definition example_config_branch :: Config where
  "example_config_branch =
     (parseConfig Map.empty
        [''team_id'' \<mapsto> VString ''team-1'', ''team_key'' \<mapsto> VString ''ENG'',
         ''released_state'' \<mapsto> VString ''Released'',
         ''comment_template'' \<mapsto> VString ''{{.Branch}}''])"

definition example_commit :: "string \<Rightarrow> ConventionalCommit" where
  "example_commit d = \<lparr>Hash = ''abc'', Type = ''feat'', Description = d\<rparr>"

definition example_context :: ReleaseContext where
  "example_context =
     \<lparr>Version = ''1.2.3'', TagName = ''v1.2.3'', Branch = ''main'', ReleaseType = ''minor'',
      ReleaseNotes = ''Bug fixes'', CommitSHA = ''0123abc'',
      Changes = Some \<lparr>Features = [example_commit ''add X ENG-1''],
                      Fixes = [example_commit ''fix Y ENG-2, see ENG-1''],
                      Breaking = [],
                      Other = [example_commit ''bump ENG-3'']\<rparr>\<rparr>"


section \<open>The identifier extractor\<close>

subsection \<open>What the pattern matches at one position\<close>

lemma rep_then_lit:
  "\<not> cls c \<Longrightarrow>
   backtrack (Rep cls lo (Some hi) # Lit c # as) p s =
     (if lo \<le> length (takeWhile cls s) \<and> length (takeWhile cls s) \<le> hi
      then (case backtrack (Lit c # as)
                   (if takeWhile cls s = [] then p else Some (last (takeWhile cls s)))
                   (dropWhile cls s) of
              Some gs \<Rightarrow> Some (takeWhile cls s # gs)
            | None \<Rightarrow> None)
      else None)"
proof (induction s arbitrary: lo hi p)
  case Nil
  then show ?case by (simp split: option.splits)
next
  case (Cons x xs)
  show ?case
  proof (cases "cls x")
    case False
    with Cons.prems show ?thesis by (auto split: option.splits)
  next
    case True
    note cx = this
    show ?thesis
    proof (cases "hi = 0")
      case True
      with cx Cons.prems show ?thesis by auto
    next
      case False
      then obtain h where h: "hi = Suc h" by (cases hi) auto
      have xc: "x \<noteq> c" using cx Cons.prems by auto
      have le: "(lo \<le> Suc (length (takeWhile cls xs))) = (lo - 1 \<le> length (takeWhile cls xs))"
        by arith
      show ?thesis
        using cx xc h Cons.IH [OF Cons.prems, of "lo - 1" h "Some x"]
        by (auto simp: le split: option.splits list.splits if_splits)
    qed
  qed
qed

lemma rep_then_boundary:
  "(lo = 0 \<longrightarrow> is_word_opt p) \<Longrightarrow> (\<forall>c. cls c \<longrightarrow> is_word_char c) \<Longrightarrow>
   backtrack [Rep cls lo None, WordBoundary] p s =
     (if lo \<le> length (takeWhile cls s) \<and> \<not> is_word_opt (first (dropWhile cls s))
      then Some [takeWhile cls s, []] else None)"
proof (induction s arbitrary: lo p)
  case Nil
  then show ?case by (auto simp: first_def is_word_opt_def)
next
  case (Cons x xs)
  show ?case
  proof (cases "cls x")
    case False
    with Cons.prems show ?thesis by (auto simp: first_def is_word_opt_def)
  next
    case True
    have w: "is_word_opt (Some x)" using True Cons.prems by (simp add: is_word_opt_def)
    have le: "(lo \<le> Suc (length (takeWhile cls xs))) = (lo - 1 \<le> length (takeWhile cls xs))"
      by arith
    have IH: "backtrack [Rep cls (lo - 1) None, WordBoundary] (Some x) xs =
       (if lo - 1 \<le> length (takeWhile cls xs) \<and> \<not> is_word_opt (first (dropWhile cls xs))
        then Some [takeWhile cls xs, []] else None)"
      using Cons.IH [of "lo - 1" "Some x"] w Cons.prems by simp
    have fb: "backtrack [WordBoundary] p (x # xs) = None" if "lo = 0"
      using that w Cons.prems(1) by (simp add: first_def)
    show ?thesis
    proof (cases "lo - 1 \<le> length (takeWhile cls xs) \<and> \<not> is_word_opt (first (dropWhile cls xs))")
      case True
      then show ?thesis using \<open>cls x\<close> IH le by simp
    next
      case False
      then have "backtrack [Rep cls (lo - 1) None, WordBoundary] (Some x) xs = None"
        using IH by simp
      then show ?thesis using \<open>cls x\<close> False le fb by auto
    qed
  qed
qed

lemma hyphen_classes:
  "\<not> is_upper CHR ''-''" "\<not> is_digit CHR ''-''" "\<not> is_word_char CHR ''-''"
  by (simp_all add: is_upper_def is_digit_def is_word_char_def is_alnum_def is_lower_def)

lemma upper_word: "is_upper c \<Longrightarrow> is_word_char c"
  by (simp add: is_word_char_def is_alnum_def)

lemma digit_word: "is_digit c \<Longrightarrow> is_word_char c"
  by (simp add: is_word_char_def is_alnum_def)

lemma upper_not_digit: "is_upper c \<Longrightarrow> \<not> is_digit c"
  by (simp add: is_upper_def is_digit_def)

lemma upper_not_lower: "is_upper c \<Longrightarrow> \<not> is_lower c"
  by (simp add: is_upper_def is_lower_def)

lemma digit_not_lower: "is_digit c \<Longrightarrow> \<not> is_lower c"
  by (simp add: is_digit_def is_lower_def)

text \<open>
  At one position the pattern matches exactly when the maximal run of uppercase letters has
  2 to 10 of them, a hyphen follows, then a non-empty maximal run of digits that ends at a
  non-word byte or at the end, and the byte before the position is not a word byte.
\<close>

lemma backtrack_issuePattern:
  "backtrack issuePattern p s =
     (if \<not> is_word_opt p \<and> 2 \<le> length (takeWhile is_upper s) \<and> length (takeWhile is_upper s) \<le> 10
         \<and> first (dropWhile is_upper s) = Some CHR ''-''
         \<and> takeWhile is_digit (tl (dropWhile is_upper s)) \<noteq> []
         \<and> \<not> is_word_opt (first (dropWhile is_digit (tl (dropWhile is_upper s))))
      then Some [[], takeWhile is_upper s, ''-'', takeWhile is_digit (tl (dropWhile is_upper s)), []]
      else None)"
proof -
  let ?L = "takeWhile is_upper s" and ?R = "dropWhile is_upper s"
  have digits: "backtrack [Rep is_digit (Suc 0) None, WordBoundary] (Some CHR ''-'') r =
     (if takeWhile is_digit r \<noteq> [] \<and> \<not> is_word_opt (first (dropWhile is_digit r))
      then Some [takeWhile is_digit r, []] else None)" for r
    using rep_then_boundary [of "Suc 0" "Some CHR ''-''" is_digit r] digit_word
    by (cases "takeWhile is_digit r") auto
  have letters: "backtrack (Rep is_upper 2 (Some 10) # Lit CHR ''-'' # [Rep is_digit (Suc 0) None, WordBoundary]) p s =
     (if 2 \<le> length ?L \<and> length ?L \<le> 10
      then (case backtrack (Lit CHR ''-'' # [Rep is_digit (Suc 0) None, WordBoundary])
                   (if ?L = [] then p else Some (last ?L)) ?R of
              Some gs \<Rightarrow> Some (?L # gs) | None \<Rightarrow> None)
      else None)"
    using rep_then_lit [of is_upper "CHR ''-''" 2 10 "[Rep is_digit (Suc 0) None, WordBoundary]" p s]
      hyphen_classes(1) by simp
  have lit: "backtrack (Lit CHR ''-'' # [Rep is_digit (Suc 0) None, WordBoundary]) q r =
     (if first r = Some CHR ''-''
      then map_option (Cons ''-'') (backtrack [Rep is_digit (Suc 0) None, WordBoundary] (Some CHR ''-'') (tl r))
      else None)" for q r
    by (cases r) (auto simp: first_def)
  have fs: "is_word_opt (first s)" if "2 \<le> length ?L"
  proof (cases s)
    case Nil
    with that show ?thesis by simp
  next
    case (Cons x xs)
    with that have "is_upper x" by (auto split: if_splits)
    then show ?thesis using Cons by (simp add: first_def is_word_opt_def upper_word)
  qed
  show ?thesis
    unfolding issuePattern_def
    using fs by (auto simp: letters lit digits)
qed

lemma takeWhile_all: "list_all P xs \<Longrightarrow> (ys = [] \<or> \<not> P (hd ys)) \<Longrightarrow> takeWhile P (xs @ ys) = xs"
  by (induction xs) (auto simp: takeWhile_eq_Nil_iff)

lemma dropWhile_all: "list_all P xs \<Longrightarrow> (ys = [] \<or> \<not> P (hd ys)) \<Longrightarrow> dropWhile P (xs @ ys) = ys"
  by (induction xs) (auto simp: dropWhile_eq_self_iff)

lemma issue_shape_iff:
  "issue_shape t \<longleftrightarrow>
     (\<exists>L D. t = L @ CHR ''-'' # D \<and> 2 \<le> length L \<and> length L \<le> 10 \<and> list_all is_upper L \<and>
            D \<noteq> [] \<and> list_all is_digit D)"
proof
  assume a: "issue_shape t"
  then obtain d where d: "dropWhile is_upper t = CHR ''-'' # d" "d \<noteq> []" "list_all is_digit d"
    by (auto simp: issue_shape_def split: list.splits)
  have "t = takeWhile is_upper t @ CHR ''-'' # d"
    using takeWhile_dropWhile_id [of is_upper t] d(1) by simp
  moreover have "list_all is_upper (takeWhile is_upper t)"
    by (simp add: list_all_iff) (meson set_takeWhileD)
  ultimately show "\<exists>L D. t = L @ CHR ''-'' # D \<and> 2 \<le> length L \<and> length L \<le> 10 \<and>
      list_all is_upper L \<and> D \<noteq> [] \<and> list_all is_digit D"
    using a d by (auto simp: issue_shape_def)
next
  assume "\<exists>L D. t = L @ CHR ''-'' # D \<and> 2 \<le> length L \<and> length L \<le> 10 \<and> list_all is_upper L \<and>
      D \<noteq> [] \<and> list_all is_digit D"
  then obtain L D where t: "t = L @ CHR ''-'' # D" and L: "2 \<le> length L" "length L \<le> 10"
    "list_all is_upper L" and D: "D \<noteq> []" "list_all is_digit D" by blast
  have "takeWhile is_upper t = L" "dropWhile is_upper t = CHR ''-'' # D"
    using takeWhile_all [OF L(3), of "CHR ''-'' # D"] dropWhile_all [OF L(3), of "CHR ''-'' # D"]
      hyphen_classes(1) t by auto
  then show "issue_shape t" using L D by (simp add: issue_shape_def)
qed


subsection \<open>The matches of a text are its word-bounded identifiers\<close>

lemma match_sound:
  assumes "backtrack issuePattern p s = Some gs"
  shows "\<exists>post. s = concat gs @ post \<and> issue_shape (concat gs) \<and> \<not> is_word_opt p \<and>
           \<not> is_word_opt (first post) \<and> gs ! 1 = takeWhile is_upper (concat gs) \<and>
           length gs = 5"
proof -
  let ?L = "takeWhile is_upper s" and ?R = "dropWhile is_upper s"
  let ?D = "takeWhile is_digit (tl ?R)" and ?post = "dropWhile is_digit (tl ?R)"
  from assms have c: "\<not> is_word_opt p" "2 \<le> length ?L" "length ?L \<le> 10"
      "first ?R = Some CHR ''-''" "?D \<noteq> []" "\<not> is_word_opt (first ?post)"
    and gs: "gs = [[], ?L, ''-'', ?D, []]"
    by (auto simp: backtrack_issuePattern split: if_splits)
  have R: "?R = CHR ''-'' # tl ?R" using c(4) by (cases ?R) (auto simp: first_def)
  have s: "s = ?L @ CHR ''-'' # ?D @ ?post"
    using takeWhile_dropWhile_id [of is_upper s] takeWhile_dropWhile_id [of is_digit "tl ?R"] R
    by metis
  have LU: "list_all is_upper ?L" by (simp add: list_all_iff) (meson set_takeWhileD)
  have DD: "list_all is_digit ?D" by (simp add: list_all_iff) (meson set_takeWhileD)
  have cg: "concat gs = ?L @ CHR ''-'' # ?D" using gs by simp
  have shape: "issue_shape (concat gs)"
    unfolding issue_shape_iff cg using c LU DD by blast
  have "takeWhile is_upper (concat gs) = ?L"
    unfolding cg using takeWhile_all [OF LU, of "CHR ''-'' # ?D"] hyphen_classes(1) by simp
  moreover have "s = concat gs @ ?post" using s cg by simp
  moreover have "gs ! 1 = ?L" "length gs = 5" using gs by simp_all
  ultimately show ?thesis using shape c(1,6) by metis
qed

lemma match_complete:
  assumes "issue_shape t" "\<not> is_word_opt p" "\<not> is_word_opt (first post)"
  shows "\<exists>gs. backtrack issuePattern p (t @ post) = Some gs \<and> concat gs = t"
proof -
  from assms(1) obtain L D where t: "t = L @ CHR ''-'' # D" and L: "2 \<le> length L" "length L \<le> 10"
    "list_all is_upper L" and D: "D \<noteq> []" "list_all is_digit D"
    unfolding issue_shape_iff by blast
  have pd: "post = [] \<or> \<not> is_digit (hd post)"
    using assms(3) digit_word by (cases post) (auto simp: first_def is_word_opt_def)
  have tw: "takeWhile is_upper (t @ post) = L" "dropWhile is_upper (t @ post) = CHR ''-'' # D @ post"
    using takeWhile_all [OF L(3), of "CHR ''-'' # D @ post"]
      dropWhile_all [OF L(3), of "CHR ''-'' # D @ post"] hyphen_classes(1) t by auto
  have td: "takeWhile is_digit (D @ post) = D" "dropWhile is_digit (D @ post) = post"
    using takeWhile_all [OF D(2) pd] dropWhile_all [OF D(2) pd] by auto
  have "backtrack issuePattern p (t @ post) = Some [[], L, ''-'', D, []]"
    using assms(2,3) L D by (simp add: backtrack_issuePattern tw td first_def)
  moreover have "concat [[], L, ''-'', D, []] = t" using t by simp
  ultimately show ?thesis by blast
qed

lemma shape_nonempty: "issue_shape t \<Longrightarrow> t \<noteq> []"
  by (auto simp: issue_shape_def)

lemma shape_hd_upper: "issue_shape t \<Longrightarrow> is_upper (hd t)"
  unfolding issue_shape_iff by (auto simp: list_all_iff) (metis hd_append2 hd_in_set length_0_conv not_numeral_le_zero)

lemma tokens_fromI:
  "issue_shape t \<Longrightarrow> s = pre @ t @ post \<Longrightarrow>
   \<not> is_word_opt (if pre = [] then p else Some (last pre)) \<Longrightarrow>
   \<not> is_word_opt (first post) \<Longrightarrow> t \<in> tokens_from p s"
  unfolding tokens_from_def by blast

lemma tokens_from_Nil: "tokens_from p [] = {}"
  by (auto simp: tokens_from_def dest: shape_nonempty)

lemma tokens_from_skip:
  assumes "backtrack issuePattern p (x # xs) = None"
  shows "tokens_from p (x # xs) = tokens_from (Some x) xs"
proof (intro set_eqI iffI)
  fix t assume "t \<in> tokens_from p (x # xs)"
  then obtain pre post where sh: "issue_shape t" and s: "x # xs = pre @ t @ post"
    and l: "\<not> is_word_opt (if pre = [] then p else Some (last pre))"
    and r: "\<not> is_word_opt (first post)"
    by (auto simp: tokens_from_def)
  show "t \<in> tokens_from (Some x) xs"
  proof (cases pre)
    case Nil
    with match_complete [OF sh _ r, of p] l s assms show ?thesis by auto
  next
    case (Cons y pre')
    with s have "xs = pre' @ t @ post" "y = x" by auto
    moreover have "\<not> is_word_opt (if pre' = [] then Some x else Some (last pre'))"
      using l Cons \<open>y = x\<close> by (auto split: if_splits)
    ultimately show ?thesis using sh r by (intro tokens_fromI [where pre = pre' and post = post])
  qed
next
  fix t assume "t \<in> tokens_from (Some x) xs"
  then obtain pre post where sh: "issue_shape t" and s: "xs = pre @ t @ post"
    and l: "\<not> is_word_opt (if pre = [] then Some x else Some (last pre))"
    and r: "\<not> is_word_opt (first post)"
    by (auto simp: tokens_from_def)
  have "x # xs = (x # pre) @ t @ post" using s by simp
  moreover have "\<not> is_word_opt (if x # pre = [] then p else Some (last (x # pre)))"
    using l by (auto split: if_splits)
  ultimately show "t \<in> tokens_from p (x # xs)"
    using sh r by (intro tokens_fromI [where pre = "x # pre" and post = post])
qed

text \<open>
  No identifier starts inside another one: the only non-word byte of an identifier is its
  hyphen, and a digit follows it.
\<close>

lemma no_overlap:
  assumes t0: "issue_shape t0" and t: "issue_shape t"
    and eq: "t0 @ post0 = pre @ t @ post"
    and pre: "pre \<noteq> []" "\<not> is_word_char (last pre)"
  shows "length t0 \<le> length pre"
proof (rule ccontr)
  assume "\<not> length t0 \<le> length pre"
  then have lt: "length pre < length t0" by simp
  from t0 obtain L D where t0': "t0 = L @ CHR ''-'' # D" and L: "list_all is_upper L"
    and D: "D \<noteq> []" "list_all is_digit D"
    unfolding issue_shape_iff by blast
  have "take (length pre) (t0 @ post0) = pre" using eq by simp
  then have p0: "pre = take (length pre) t0" using lt by simp
  define us where "us = drop (length pre) t0"
  have t0s: "t0 = pre @ us" using p0 us_def by (metis append_take_drop_id)
  have usn: "us \<noteq> []" using lt us_def by simp
  have "us @ post0 = t @ post" using eq t0s by simp
  then have hd_eq: "hd us = hd t" using usn shape_nonempty [OF t] by (metis hd_append2)
  have up: "is_upper (hd us)" using hd_eq shape_hd_upper [OF t] by simp
  from t0s t0' have "L @ CHR ''-'' # D = pre @ us" by simp
  then obtain ws where "(L = pre @ ws \<and> ws @ CHR ''-'' # D = us) \<or> (L @ ws = pre \<and> CHR ''-'' # D = ws @ us)"
    unfolding append_eq_append_conv2 by blast
  then show False
  proof
    assume a: "L = pre @ ws \<and> ws @ CHR ''-'' # D = us"
    then have "last pre \<in> set L" using pre(1) by auto
    then show False using L pre(2) upper_word by (auto simp: list_all_iff)
  next
    assume a: "L @ ws = pre \<and> CHR ''-'' # D = ws @ us"
    show False
    proof (cases ws)
      case Nil
      then have "pre = L" using a by simp
      then have "last pre \<in> set L" using pre(1) by auto
      then show False using L pre(2) upper_word by (auto simp: list_all_iff)
    next
      case (Cons w ws')
      then have w: "w = CHR ''-''" and Dd: "D = ws' @ us" using a by auto
      show False
      proof (cases ws')
        case Nil
        then have "hd us \<in> set D" using Dd usn by auto
        then show False using D(2) up upper_not_digit by (auto simp: list_all_iff)
      next
        case (Cons v vs)
        then have "last pre = last ws'" using a \<open>ws = w # ws'\<close> by auto
        moreover have "last ws' \<in> set D" using Dd Cons by auto
        ultimately show False using D(2) pre(2) digit_word by (auto simp: list_all_iff)
      qed
    qed
  qed
qed

lemma tokens_from_match:
  assumes m: "backtrack issuePattern p s = Some gs"
  shows "concat gs \<noteq> []"
    and "tokens_from p s =
           insert (concat gs) (tokens_from (Some (last (concat gs))) (drop (length (concat gs)) s))"
proof -
  let ?t0 = "concat gs"
  from match_sound [OF m] obtain post0 where s: "s = ?t0 @ post0" and sh0: "issue_shape ?t0"
    and l0: "\<not> is_word_opt p" and r0: "\<not> is_word_opt (first post0)" by blast
  show ne: "?t0 \<noteq> []" using shape_nonempty [OF sh0] .
  have dr: "drop (length ?t0) s = post0" using s by (metis append_eq_conv_conj)
  show "tokens_from p s = insert ?t0 (tokens_from (Some (last ?t0)) (drop (length ?t0) s))"
    unfolding dr
  proof (intro set_eqI iffI)
    fix t assume "t \<in> tokens_from p s"
    then obtain pre post where sh: "issue_shape t" and st: "s = pre @ t @ post"
      and l: "\<not> is_word_opt (if pre = [] then p else Some (last pre))"
      and r: "\<not> is_word_opt (first post)"
      by (auto simp: tokens_from_def)
    show "t \<in> insert ?t0 (tokens_from (Some (last ?t0)) post0)"
    proof (cases "pre = []")
      case True
      with match_complete [OF sh l0 r] st m show ?thesis by auto
    next
      case False
      then have lw: "\<not> is_word_char (last pre)" using l by (simp add: is_word_opt_def)
      have eq: "?t0 @ post0 = pre @ t @ post" using s st by simp
      have "length ?t0 \<le> length pre" using no_overlap [OF sh0 sh eq False lw] .
      then obtain pre' where pre': "pre = ?t0 @ pre'"
        using eq by (metis append_eq_append_conv_if append_take_drop_id)
      then have p0: "post0 = pre' @ t @ post" using eq by simp
      have "\<not> is_word_opt (if pre' = [] then Some (last ?t0) else Some (last pre'))"
        using l False pre' ne by (auto split: if_splits)
      then have "t \<in> tokens_from (Some (last ?t0)) post0"
        using sh p0 r by (intro tokens_fromI [where pre = pre' and post = post])
      then show ?thesis by simp
    qed
  next
    fix t assume a: "t \<in> insert ?t0 (tokens_from (Some (last ?t0)) post0)"
    show "t \<in> tokens_from p s"
    proof (cases "t = ?t0")
      case True
      have "s = [] @ ?t0 @ post0" using s by simp
      then have "?t0 \<in> tokens_from p s"
        using sh0 l0 r0 by (intro tokens_fromI [where pre = "[]" and post = post0]) simp_all
      then show ?thesis using True by simp
    next
      case False
      with a obtain pre post where sh: "issue_shape t" and st: "post0 = pre @ t @ post"
        and l: "\<not> is_word_opt (if pre = [] then Some (last ?t0) else Some (last pre))"
        and r: "\<not> is_word_opt (first post)"
        by (auto simp: tokens_from_def)
      have "s = (?t0 @ pre) @ t @ post" using s st by simp
      moreover have "\<not> is_word_opt (if ?t0 @ pre = [] then p else Some (last (?t0 @ pre)))"
        using l ne by (auto split: if_splits)
      ultimately show ?thesis using sh r by (intro tokens_fromI [where pre = "?t0 @ pre" and post = post])
    qed
  qed
qed

lemma find_all_Cons_Some:
  assumes "backtrack issuePattern p (x # xs) = Some gs"
  shows "find_all p (x # xs) =
           gs # find_all (Some (last (concat gs))) (drop (length (concat gs)) (x # xs))"
  using assms tokens_from_match(1) [OF assms]
  by (simp add: Let_def del: concat_eq_Nil_conv)


lemma find_all_tokens: "set (map concat (find_all p s)) = tokens_from p s"
proof (induction p s rule: find_all.induct)
  case (1 p)
  have "backtrack issuePattern p [] = None" by (simp add: backtrack_issuePattern)
  then show ?case by (simp add: tokens_from_Nil)
next
  case (2 p x xs)
  show ?case
  proof (cases "backtrack issuePattern p (x # xs)")
    case None
    have "find_all p (x # xs) = find_all (Some x) xs" using None by simp
    then show ?thesis
      using "2.IH"(1) [OF None] tokens_from_skip [OF None] by (simp only:)
  next
    case (Some gs)
    let ?rest = "find_all (Some (last (concat gs))) (drop (length (concat gs)) (x # xs))"
    have ne: "length (concat gs) \<noteq> 0" using tokens_from_match(1) [OF Some] by simp
    have IH: "set (map concat ?rest)
        = tokens_from (Some (last (concat gs))) (drop (length (concat gs)) (x # xs))"
      using "2.IH"(3) [OF Some refl ne] .
    have "set (map concat (find_all p (x # xs))) = insert (concat gs) (set (map concat ?rest))"
      by (simp only: find_all_Cons_Some [OF Some] list.map list.set)
    also have "\<dots> = tokens_from p (x # xs)"
      by (simp only: IH tokens_from_match(2) [OF Some])
    finally show ?thesis .
  qed
qed

lemma tokens_from_start:
  "tokens_from None s = {t. issue_shape t \<and> occurs_bounded is_word_char s t}"
proof -
  have a: "(\<not> is_word_opt (if pre = [] then None else Some (last pre))) = (pre = [] \<or> \<not> is_word_char (last pre))"
    for pre :: string by (simp add: is_word_opt_def)
  have b: "(\<not> is_word_opt (first post)) = (post = [] \<or> \<not> is_word_char (hd post))" for post
    by (cases post) (simp_all add: is_word_opt_def first_def)
  show ?thesis by (simp only: tokens_from_def occurs_bounded_def a b)
qed

lemma find_all_submatch:
  "gs \<in> set (find_all p s) \<Longrightarrow>
     issue_shape (concat gs) \<and> gs ! 1 = takeWhile is_upper (concat gs)"
proof (induction p s rule: find_all.induct)
  case (1 p)
  have "backtrack issuePattern p [] = None" by (simp add: backtrack_issuePattern)
  with 1 show ?case by simp
next
  case (2 p x xs)
  show ?case
  proof (cases "backtrack issuePattern p (x # xs)")
    case None
    have "find_all p (x # xs) = find_all (Some x) xs" using None by simp
    then show ?thesis using "2.prems" "2.IH"(1) [OF None] by (simp only:)
  next
    case (Some g)
    have ne: "length (concat g) \<noteq> 0" using tokens_from_match(1) [OF Some] by simp
    from "2.prems" have "gs = g \<or> gs \<in> set (find_all (Some (last (concat g))) (drop (length (concat g)) (x # xs)))"
      by (simp only: find_all_Cons_Some [OF Some] set_ConsD list.set insert_iff)
    then show ?thesis
      using match_sound [OF Some] "2.IH"(3) [OF Some refl ne] by blast
  qed
qed


subsection \<open>The loops of \<open>extractIssues\<close>\<close>

lemma set_keep_first: "set (keep_first xs) = set xs"
  by (induction xs) auto

lemma distinct_keep_first: "distinct (keep_first xs)"
  by (induction xs) (auto simp: distinct_removeAll)

lemma filter_removeAll_commute: "removeAll x (filter P ys) = filter P (removeAll x ys)"
  by (induction ys) auto

lemma filter_removeAll_absorb: "\<not> P x \<Longrightarrow> filter P (removeAll x ys) = filter P ys"
  by (induction ys) auto

lemma keep_first_filter: "keep_first (filter P xs) = filter P (keep_first xs)"
  by (induction xs) (simp_all add: filter_removeAll_commute filter_removeAll_absorb)

lemma first_index_Cons:
  "first_index (x # xs) a = (if a = x then 0 else Suc (first_index xs a))"
  by (simp add: first_index_def)

lemma sorted_keep_first:
  "sorted_wrt (\<lambda>a b. first_index xs a < first_index xs b) (keep_first xs)"
proof (induction xs)
  case Nil
  show ?case by simp
next
  case (Cons x xs)
  have "sorted_wrt (\<lambda>a b. first_index xs a < first_index xs b) (removeAll x (keep_first xs))"
    using Cons by (simp add: removeAll_filter_not_eq sorted_wrt_filter)
  then have "sorted_wrt (\<lambda>a b. first_index (x # xs) a < first_index (x # xs) b)
      (removeAll x (keep_first xs))"
    by (rule sorted_wrt_mono_rel [rotated]) (auto simp: first_index_Cons)
  then show ?case by (auto simp: first_index_Cons)
qed

text \<open>One pass of the inner loop's body on a candidate that passed the filter.\<close>

lemma extract_match_pass:
  "extract_match ef prefix (m0, m1, m2) (seen, issues) =
     (if prefix = [] \<or> ef m1 prefix
      then (if seen_at seen m0 then (seen, issues) else (seen(m0 \<mapsto> True), issues @ [m0]))
      else (seen, issues))"
  by (simp add: extract_match_def)

lemma fold_extract_match:
  assumes "\<forall>k. seen_at seen k = (k \<in> set issues)"
  shows "\<exists>seen'. fold (extract_match ef prefix) ms (seen, issues) =
           (seen', issues @ filter (\<lambda>k. k \<notin> set issues)
              (keep_first (map fst (filter (\<lambda>(m0, m1, m2). prefix = [] \<or> ef m1 prefix) ms)))) \<and>
         (\<forall>k. seen_at seen' k =
            (k \<in> set issues \<union> set (map fst (filter (\<lambda>(m0, m1, m2). prefix = [] \<or> ef m1 prefix) ms))))"
  using assms
proof (induction ms arbitrary: seen issues)
  case Nil
  then show ?case by simp
next
  case (Cons m ms)
  obtain m0 m1 m2 where m: "m = (m0, m1, m2)" by (cases m) auto
  let ?pass = "\<lambda>(m0, m1, m2). prefix = [] \<or> ef m1 prefix"
  show ?case
  proof (cases "(prefix = [] \<or> ef m1 prefix) \<and> \<not> seen_at seen m0")
    case False
    then have st: "extract_match ef prefix m (seen, issues) = (seen, issues)"
      by (auto simp: m extract_match_pass)
    from Cons.IH [OF Cons.prems] obtain seen' where
      f: "fold (extract_match ef prefix) ms (seen, issues) =
           (seen', issues @ filter (\<lambda>k. k \<notin> set issues) (keep_first (map fst (filter ?pass ms))))"
      and s: "\<forall>k. seen_at seen' k = (k \<in> set issues \<union> set (map fst (filter ?pass ms)))"
      by blast
    have in_iss: "m0 \<in> set issues" if "prefix = [] \<or> ef m1 prefix"
      using that False Cons.prems by auto
    have "filter (\<lambda>k. k \<notin> set issues) (keep_first (map fst (filter ?pass (m # ms))))
        = filter (\<lambda>k. k \<notin> set issues) (keep_first (map fst (filter ?pass ms)))"
      using in_iss by (auto simp: m removeAll_filter_not_eq intro: filter_cong)
    moreover have "set issues \<union> set (map fst (filter ?pass (m # ms)))
        = set issues \<union> set (map fst (filter ?pass ms))"
      using in_iss by (auto simp: m)
    ultimately show ?thesis using f s st by (simp del: set_map)
  next
    case True
    then have st: "extract_match ef prefix m (seen, issues) = (seen(m0 \<mapsto> True), issues @ [m0])"
      by (auto simp: m extract_match_pass)
    have notin: "m0 \<notin> set issues" using True Cons.prems by auto
    have inv: "\<forall>k. seen_at (seen(m0 \<mapsto> True)) k = (k \<in> set (issues @ [m0]))"
      using Cons.prems by (auto simp: seen_at_def)
    from Cons.IH [OF inv] obtain seen' where
      f: "fold (extract_match ef prefix) ms (seen(m0 \<mapsto> True), issues @ [m0]) =
           (seen', (issues @ [m0]) @ filter (\<lambda>k. k \<notin> set (issues @ [m0]))
              (keep_first (map fst (filter ?pass ms))))"
      and s: "\<forall>k. seen_at seen' k = (k \<in> set (issues @ [m0]) \<union> set (map fst (filter ?pass ms)))"
      by blast
    have "filter (\<lambda>k. k \<notin> set issues) (keep_first (map fst (filter ?pass (m # ms))))
        = m0 # filter (\<lambda>k. k \<notin> set (issues @ [m0])) (keep_first (map fst (filter ?pass ms)))"
      using True notin by (auto simp: m removeAll_filter_not_eq intro: filter_cong)
    moreover have "set issues \<union> set (map fst (filter ?pass (m # ms)))
        = set (issues @ [m0]) \<union> set (map fst (filter ?pass ms))"
      using True by (auto simp: m)
    ultimately show ?thesis using f s st by (simp del: set_map)
  qed
qed


lemma candidates_concat:
  "candidates ef commits prefix =
     map fst (filter (\<lambda>(m0, m1, m2). prefix = [] \<or> ef m1 prefix)
                (concat (map FindAllStringSubmatch commits)))"
  by (simp add: candidates_def map_concat filter_concat comp_def)

lemma fold_concat_map: "fold f (concat (map g xs)) = fold (\<lambda>x. fold f (g x)) xs"
  by (induction xs) simp_all

lemma extractIssues_keep_first:
  "extractIssues ef commits prefix = keep_first (candidates ef commits prefix)"
proof -
  have "fold (\<lambda>commit. fold (extract_match ef prefix) (FindAllStringSubmatch commit)) commits
      = fold (extract_match ef prefix) (concat (map FindAllStringSubmatch commits))"
    by (simp add: fold_concat_map)
  moreover have "\<forall>k. seen_at Map.empty k = (k \<in> set ([] :: string list))"
    by (simp add: seen_at_def)
  ultimately show ?thesis
    using fold_extract_match [of Map.empty "[]" ef prefix "concat (map FindAllStringSubmatch commits)"]
    by (auto simp: extractIssues_def candidates_concat)
qed

lemma submatch_fst: "fst (submatch_of gs) = concat gs"
  by (simp add: submatch_of_def)

lemma FindAll_letters:
  assumes "(m0, m1, m2) \<in> set (FindAllStringSubmatch c)"
  shows "issue_shape m0 \<and> m1 = takeWhile is_upper m0"
proof -
  from assms obtain gs where "gs \<in> set (find_all None c)" "(m0, m1, m2) = submatch_of gs"
    by (auto simp: FindAllStringSubmatch_def)
  then show ?thesis using find_all_submatch [of gs None c] by (auto simp: submatch_of_def)
qed

lemma FindAll_set:
  "fst ` set (FindAllStringSubmatch c) = {t. issue_shape t \<and> occurs_bounded is_word_char c t}"
proof -
  have "fst ` set (FindAllStringSubmatch c) = set (map concat (find_all None c))"
    by (simp add: FindAllStringSubmatch_def image_image submatch_fst)
  then show ?thesis by (simp only: find_all_tokens tokens_from_start)
qed

lemma candidates_filter:
  "candidates ef commits prefix =
     filter (\<lambda>t. prefix = [] \<or> ef (takeWhile is_upper t) prefix) (candidates ef commits [])"
proof -
  have "map fst (filter (\<lambda>(m0, m1, m2). prefix = [] \<or> ef m1 prefix) ms)
      = filter (\<lambda>t. prefix = [] \<or> ef (takeWhile is_upper t) prefix) (map fst ms)"
    if "\<forall>m\<in>set ms. fst (snd m) = takeWhile is_upper (fst m)" for ms :: "submatch list"
    using that by (induction ms) auto
  moreover have "\<forall>m\<in>set (concat (map FindAllStringSubmatch commits)).
      fst (snd m) = takeWhile is_upper (fst m)"
    using FindAll_letters by fastforce
  ultimately show ?thesis by (simp add: candidates_concat)
qed

lemma set_candidates_all:
  "set (candidates ef commits []) =
     {t. issue_shape t \<and> (\<exists>c\<in>set commits. occurs_bounded is_word_char c t)}"
proof -
  have "set (candidates ef commits []) = (\<Union>c\<in>set commits. fst ` set (FindAllStringSubmatch c))"
    by (auto simp: candidates_def)
  then show ?thesis by (auto simp: FindAll_set)
qed

lemma shape_letters: "issue_shape t \<Longrightarrow> c \<in> set t \<Longrightarrow> \<not> is_lower c"
  unfolding issue_shape_iff
  using upper_not_lower digit_not_lower by (auto simp: list_all_iff is_lower_def)


subsection \<open>Claims about the extractor\<close>

text \<open>
  C1. For every list of commit texts and every prefix filter (also the empty one), the list
  that \<open>extractIssues\<close> returns has no duplicates, holds exactly the candidates (the matches
  that pass the filter, over the commits in the order supplied and left to right within
  one commit), and lists them in the order of their first occurrence among the candidates.
\<close>

theorem extractIssues_distinct_first_occurrence:
  "distinct (extractIssues ef commits prefix) \<and>
   set (extractIssues ef commits prefix) = set (candidates ef commits prefix) \<and>
   sorted_wrt (\<lambda>a b. first_index (candidates ef commits prefix) a
                      < first_index (candidates ef commits prefix) b)
     (extractIssues ef commits prefix)"
  by (simp only: extractIssues_keep_first distinct_keep_first set_keep_first sorted_keep_first
        simp_thms)

theorem extractIssues_distinct_first_occurrence_witness:
  "candidates equalFoldASCII [''feat: ENG-123 OPS-9'', ''fix: also OPS-9, ENG-123 and QA-4''] []
     = [''ENG-123'', ''OPS-9'', ''OPS-9'', ''ENG-123'', ''QA-4''] \<and>
   extractIssues equalFoldASCII [''feat: ENG-123 OPS-9'', ''fix: also OPS-9, ENG-123 and QA-4''] []
     = [''ENG-123'', ''OPS-9'', ''QA-4''] \<and>
   distinct (extractIssues equalFoldASCII
     [''feat: ENG-123 OPS-9'', ''fix: also OPS-9, ENG-123 and QA-4''] [])"
proof -
  have "candidates equalFoldASCII [''feat: ENG-123 OPS-9'', ''fix: also OPS-9, ENG-123 and QA-4''] []
     = [''ENG-123'', ''OPS-9'', ''OPS-9'', ''ENG-123'', ''QA-4'']"
    by code_simp
  moreover have "extractIssues equalFoldASCII
      [''feat: ENG-123 OPS-9'', ''fix: also OPS-9, ENG-123 and QA-4''] []
     = [''ENG-123'', ''OPS-9'', ''QA-4'']"
    by code_simp
  ultimately show ?thesis
    using extractIssues_distinct_first_occurrence [of equalFoldASCII
      "[''feat: ENG-123 OPS-9'', ''fix: also OPS-9, ENG-123 and QA-4'']" "[]"]
    by simp
qed

text \<open>
  C5, as stated, asks for every identifier-shaped substring with a non-alphanumeric byte (or
  the end of the text) on either side to be extracted. The underscore is not alphanumeric,
  yet it is a word byte for \<^verbatim>\<open>\b\<close>: \<^verbatim>\<open>AB-1\<close> in \<^verbatim>\<open>_AB-1\<close> has that shape and that context, and is
  not extracted.
\<close>

theorem extractIssues_alnum_bounded_counterexample:
  "issue_shape ''AB-1'' \<and> occurs_bounded is_alnum ''_AB-1'' ''AB-1'' \<and>
   ''AB-1'' \<notin> set (extractIssues equalFoldASCII [''_AB-1''] [])"
proof -
  have "issue_shape ''AB-1''" by code_simp
  moreover have "''_AB-1'' = ''_'' @ ''AB-1'' @ []" by simp
  then have "occurs_bounded is_alnum ''_AB-1'' ''AB-1''"
    unfolding occurs_bounded_def
    by (intro exI [of _ "''_''"] exI [of _ "[]"]) (simp add: is_alnum_def is_upper_def is_lower_def is_digit_def)
  moreover have "extractIssues equalFoldASCII [''_AB-1''] [] = []" by code_simp
  ultimately show ?thesis by simp
qed

text \<open>
  C5, amended. A text is extracted exactly when it has the shape of an identifier (2 to 10
  uppercase ASCII letters, a hyphen, one or more decimal digits), occurs in one of the
  commits with, on either side, the end of the commit or a byte that is not a word byte (a
  letter, a digit or the underscore), and passes the prefix filter when there is one.
\<close>

theorem extractIssues_word_bounded:
  "set (extractIssues ef commits prefix) =
     {t. issue_shape t \<and> (\<exists>c\<in>set commits. occurs_bounded is_word_char c t) \<and>
         (prefix = [] \<or> ef (takeWhile is_upper t) prefix)}"
proof -
  have "set (extractIssues ef commits prefix) =
      {t \<in> set (candidates ef commits []). prefix = [] \<or> ef (takeWhile is_upper t) prefix}"
    by (simp only: extractIssues_keep_first set_keep_first candidates_filter [of ef commits prefix]
          set_filter)
  then show ?thesis by (auto simp: set_candidates_all)
qed

theorem extractIssues_word_bounded_witness:
  "issue_shape ''ENG-123'' \<and> occurs_bounded is_word_char ''fix (ENG-123)'' ''ENG-123'' \<and>
   equalFoldASCII (takeWhile is_upper ''ENG-123'') ''eng'' \<and>
   ''ENG-123'' \<in> set (extractIssues equalFoldASCII [''fix (ENG-123)''] ''eng'')"
proof -
  have s: "issue_shape ''ENG-123''" by code_simp
  have "''fix (ENG-123)'' = ''fix ('' @ ''ENG-123'' @ '')''" by simp
  then have o: "occurs_bounded is_word_char ''fix (ENG-123)'' ''ENG-123''"
    unfolding occurs_bounded_def
    by (intro exI [of _ "''fix (''"] exI [of _ "'')''"])
       (simp add: is_word_char_def is_alnum_def is_upper_def is_lower_def is_digit_def)
  have e: "equalFoldASCII (takeWhile is_upper ''ENG-123'') ''eng''" by code_simp
  show ?thesis
    using s o e extractIssues_word_bounded [of equalFoldASCII "[''fix (ENG-123)'']" "''eng''"]
    by simp
qed

text \<open>
  C6. With a prefix filter, the result is the unfiltered result restricted to the identifiers
  whose letters compare equal to the filter under \<^verbatim>\<open>EqualFold\<close>; every identifier returned
  is a verbatim part of a commit, and none of its bytes is a lowercase letter, whatever the
  filter and the comparison.
\<close>

theorem extractIssues_prefix_filter:
  "(prefix \<noteq> [] \<longrightarrow>
      extractIssues ef commits prefix =
        filter (\<lambda>t. ef (takeWhile is_upper t) prefix) (extractIssues ef commits [])) \<and>
   (\<forall>t\<in>set (extractIssues ef commits prefix).
      (\<exists>c\<in>set commits. \<exists>pre post. c = pre @ t @ post) \<and> (\<forall>ch\<in>set t. \<not> is_lower ch))"
proof -
  have A: "extractIssues ef commits prefix =
      filter (\<lambda>t. ef (takeWhile is_upper t) prefix) (extractIssues ef commits [])"
    if "prefix \<noteq> []"
    using that
    by (simp add: extractIssues_keep_first candidates_filter [of ef commits prefix]
          keep_first_filter)
  have B: "(\<exists>c\<in>set commits. \<exists>pre post. c = pre @ t @ post) \<and> (\<forall>ch\<in>set t. \<not> is_lower ch)"
    if "t \<in> set (extractIssues ef commits prefix)" for t
  proof -
    from that have "t \<in> set (candidates ef commits [])"
      by (simp add: extractIssues_keep_first set_keep_first candidates_filter [of ef commits prefix])
    then have sh: "issue_shape t" and oc: "\<exists>c\<in>set commits. occurs_bounded is_word_char c t"
      by (simp_all add: set_candidates_all)
    from oc have "\<exists>c\<in>set commits. \<exists>pre post. c = pre @ t @ post"
      unfolding occurs_bounded_def by blast
    then show ?thesis using shape_letters [OF sh] by blast
  qed
  show ?thesis using A B by blast
qed

theorem extractIssues_prefix_filter_witness:
  "''eng'' \<noteq> [] \<and>
   extractIssues equalFoldASCII [''feat: eng-123 lower case'', ''fix ENG-7, TEAM-456 ENG-7''] []
     = [''ENG-7'', ''TEAM-456''] \<and>
   extractIssues equalFoldASCII [''feat: eng-123 lower case'', ''fix ENG-7, TEAM-456 ENG-7''] ''eng''
     = [''ENG-7''] \<and>
   filter (\<lambda>t. equalFoldASCII (takeWhile is_upper t) ''eng'') [''ENG-7'', ''TEAM-456''] = [''ENG-7'']"
proof -
  have a: "extractIssues equalFoldASCII
      [''feat: eng-123 lower case'', ''fix ENG-7, TEAM-456 ENG-7''] [] = [''ENG-7'', ''TEAM-456'']"
    by code_simp
  have b: "filter (\<lambda>t. equalFoldASCII (takeWhile is_upper t) ''eng'') [''ENG-7'', ''TEAM-456'']
      = [''ENG-7'']"
    by code_simp
  show ?thesis
    using a b extractIssues_prefix_filter [of "''eng''" equalFoldASCII
      "[''feat: eng-123 lower case'', ''fix ENG-7, TEAM-456 ENG-7'']"]
    by simp
qed


section \<open>Configuration defaults\<close>

lemma GetString_absent:
  "raw key = None \<Longrightarrow> GetString environ raw key [] d = d"
  by (simp add: GetString_def)

lemma GetBool_absent: "raw key = None \<Longrightarrow> GetBool raw key d = d"
  by (simp add: GetBool_def)

text \<open>
  C8, as stated, gives the default comment template as \<^verbatim>\<open>Released in {{Version}}\<close>; the
  default of \<open>parseConfig\<close> is the Go template \<^verbatim>\<open>Released in {{.Version}}\<close>, with the dot.
\<close>

theorem parseConfig_comment_template_counterexample:
  "CommentTemplate (parseConfig Map.empty Map.empty) \<noteq> ''Released in {{Version}}''"
  by (simp add: parseConfig_def Let_def GetString_def)

text \<open>
  C8, amended. For every raw configuration map and every environment: when its key is absent,
  the released-state name is \<^verbatim>\<open>Done\<close>, each of the three toggles is true, the comment
  template is \<^verbatim>\<open>Released in {{.Version}}\<close>, and the issue-prefix filter is the team key.
\<close>

theorem parseConfig_defaults:
  "(raw ''released_state'' = None \<longrightarrow> ReleasedState (parseConfig environ raw) = ''Done'') \<and>
   (raw ''create_release_issue'' = None \<longrightarrow> CreateReleaseIssue (parseConfig environ raw)) \<and>
   (raw ''update_linked_issues'' = None \<longrightarrow> UpdateLinkedIssues (parseConfig environ raw)) \<and>
   (raw ''add_release_comment'' = None \<longrightarrow> AddReleaseComment (parseConfig environ raw)) \<and>
   (raw ''comment_template'' = None \<longrightarrow>
      CommentTemplate (parseConfig environ raw) = ''Released in {{.Version}}'') \<and>
   (raw ''issue_prefix'' = None \<longrightarrow>
      IssuePrefix (parseConfig environ raw) = TeamKey (parseConfig environ raw))"
  by (auto simp: parseConfig_def Let_def GetString_absent GetBool_absent)

theorem parseConfig_defaults_witness:
  "[''team_key'' \<mapsto> VString ''DEV''] ''released_state'' = None \<and>
   [''team_key'' \<mapsto> VString ''DEV''] ''create_release_issue'' = None \<and>
   [''team_key'' \<mapsto> VString ''DEV''] ''update_linked_issues'' = None \<and>
   [''team_key'' \<mapsto> VString ''DEV''] ''add_release_comment'' = None \<and>
   [''team_key'' \<mapsto> VString ''DEV''] ''comment_template'' = None \<and>
   [''team_key'' \<mapsto> VString ''DEV''] ''issue_prefix'' = None \<and>
   ReleasedState (parseConfig Map.empty [''team_key'' \<mapsto> VString ''DEV'']) = ''Done'' \<and>
   CreateReleaseIssue (parseConfig Map.empty [''team_key'' \<mapsto> VString ''DEV'']) \<and>
   UpdateLinkedIssues (parseConfig Map.empty [''team_key'' \<mapsto> VString ''DEV'']) \<and>
   AddReleaseComment (parseConfig Map.empty [''team_key'' \<mapsto> VString ''DEV'']) \<and>
   CommentTemplate (parseConfig Map.empty [''team_key'' \<mapsto> VString ''DEV''])
     = ''Released in {{.Version}}'' \<and>
   TeamKey (parseConfig Map.empty [''team_key'' \<mapsto> VString ''DEV'']) = ''DEV'' \<and>
   IssuePrefix (parseConfig Map.empty [''team_key'' \<mapsto> VString ''DEV'']) = ''DEV''"
proof -
  have k: "TeamKey (parseConfig Map.empty [''team_key'' \<mapsto> VString ''DEV'']) = ''DEV''"
    by (simp add: parseConfig_def Let_def GetString_def)
  show ?thesis
    using k parseConfig_defaults [of "[''team_key'' \<mapsto> VString ''DEV'']" Map.empty]
    by simp
qed


section \<open>The reconciliation loop\<close>

lemma sent_events: "sent c r tr = (r, tr @ [(c, err_of r)])"
  by (simp add: sent_def)

lemma update_step_attempt:
  "\<exists>evs n ws. attempt (UpdateLinkedIssues cfg \<and> rs \<noteq> []) (ExecUpdateIssueState (issue_ID issue) rs)
       (''Failed to update '' @ issueID @ '': '') evs n ws \<and>
     update_step w cfg rs issueID issue st =
       st\<lparr>updated := updated st + n, errs := errs st @ ws, events := events st @ evs\<rparr>"
proof (cases "UpdateLinkedIssues cfg \<and> rs \<noteq> []")
  case False
  then have "update_step w cfg rs issueID issue st = st" by (auto simp: update_step_def)
  then show ?thesis using False by (intro exI [of _ "[]"] exI [of _ 0]) (simp add: attempt_def)
next
  case True
  obtain r tr where u: "UpdateIssueState w (events st) (issue_ID issue) rs = (r, tr)"
    by (cases "UpdateIssueState w (events st) (issue_ID issue) rs") auto
  then have tr: "tr = events st @ [(ExecUpdateIssueState (issue_ID issue) rs, err_of r)]"
    by (auto simp: UpdateIssueState_def sent_def)
  show ?thesis
  proof (cases r)
    case (Inl e)
    then show ?thesis using True u tr
      by (intro exI [of _ "[(ExecUpdateIssueState (issue_ID issue) rs, Some e)]"] exI [of _ 0]
            exI [of _ "[''Failed to update '' @ issueID @ '': '' @ e]"])
         (simp add: attempt_def update_step_def err_of_def)
  next
    case (Inr u')
    then show ?thesis using True u tr
      by (intro exI [of _ "[(ExecUpdateIssueState (issue_ID issue) rs, None)]"] exI [of _ 1]
            exI [of _ "[]"])
         (simp add: attempt_def update_step_def err_of_def)
  qed
qed

lemma comment_step_attempt:
  "\<exists>evs n ws. attempt (AddReleaseComment cfg \<and> comment \<noteq> []) (ExecAddComment (issue_ID issue) comment)
       (''Failed to add comment to '' @ issueID @ '': '') evs n ws \<and>
     comment_step w cfg comment issueID issue st =
       st\<lparr>commented := commented st + n, errs := errs st @ ws, events := events st @ evs\<rparr>"
proof (cases "AddReleaseComment cfg \<and> comment \<noteq> []")
  case False
  then have "comment_step w cfg comment issueID issue st = st" by (auto simp: comment_step_def)
  then show ?thesis using False by (intro exI [of _ "[]"] exI [of _ 0]) (simp add: attempt_def)
next
  case True
  obtain r tr where u: "AddComment w (events st) (issue_ID issue) comment = (r, tr)"
    by (cases "AddComment w (events st) (issue_ID issue) comment") auto
  then have tr: "tr = events st @ [(ExecAddComment (issue_ID issue) comment, err_of r)]"
    by (auto simp: AddComment_def sent_def)
  show ?thesis
  proof (cases r)
    case (Inl e)
    then show ?thesis using True u tr
      by (intro exI [of _ "[(ExecAddComment (issue_ID issue) comment, Some e)]"] exI [of _ 0]
            exI [of _ "[''Failed to add comment to '' @ issueID @ '': '' @ e]"])
         (simp add: attempt_def comment_step_def err_of_def)
  next
    case (Inr u')
    then show ?thesis using True u tr
      by (intro exI [of _ "[(ExecAddComment (issue_ID issue) comment, None)]"] exI [of _ 1]
            exI [of _ "[]"])
         (simp add: attempt_def comment_step_def err_of_def)
  qed
qed

text \<open>One pass of the loop adds one block.\<close>

lemma processIssue_block:
  "\<exists>b. issue_block (UpdateLinkedIssues cfg \<and> rs \<noteq> []) rs (AddReleaseComment cfg \<and> comment \<noteq> [])
          comment issueID b \<and>
     processIssue w cfg rs comment issueID st =
       st\<lparr>updated := updated st + block_updated b, commented := commented st + block_commented b,
          errs := errs st @ block_warnings b, events := events st @ block_events b\<rparr>"
proof -
  obtain r tr where g: "GetIssueByIdentifier w (events st) issueID = (r, tr)"
    by (cases "GetIssueByIdentifier w (events st) issueID") auto
  then have tr: "tr = events st @ [(ExecGetIssue issueID, err_of r)]"
    by (auto simp: GetIssueByIdentifier_def sent_def)
  show ?thesis
  proof (cases r)
    case (Inl e)
    let ?b = "([(ExecGetIssue issueID, Some e)], 0 :: nat, 0 :: nat,
               [''Issue '' @ issueID @ '' not found: '' @ e])"
    have "issue_block (UpdateLinkedIssues cfg \<and> rs \<noteq> []) rs (AddReleaseComment cfg \<and> comment \<noteq> [])
        comment issueID ?b"
      by (simp add: issue_block_def)
    moreover have "processIssue w cfg rs comment issueID st =
        st\<lparr>updated := updated st + block_updated ?b, commented := commented st + block_commented ?b,
           errs := errs st @ block_warnings ?b, events := events st @ block_events ?b\<rparr>"
      using g tr Inl
      by (simp add: processIssue_def err_of_def block_updated_def block_commented_def
            block_warnings_def block_events_def)
    ultimately show ?thesis by blast
  next
    case (Inr issue)
    let ?st1 = "st\<lparr>events := tr\<rparr>"
    obtain evsU nU wsU where
      aU: "attempt (UpdateLinkedIssues cfg \<and> rs \<noteq> []) (ExecUpdateIssueState (issue_ID issue) rs)
             (''Failed to update '' @ issueID @ '': '') evsU nU wsU"
      and sU: "update_step w cfg rs issueID issue ?st1 =
             ?st1\<lparr>updated := updated ?st1 + nU, errs := errs ?st1 @ wsU, events := events ?st1 @ evsU\<rparr>"
      using update_step_attempt [of cfg rs issue issueID w ?st1] by blast
    let ?st2 = "update_step w cfg rs issueID issue ?st1"
    obtain evsC nC wsC where
      aC: "attempt (AddReleaseComment cfg \<and> comment \<noteq> []) (ExecAddComment (issue_ID issue) comment)
             (''Failed to add comment to '' @ issueID @ '': '') evsC nC wsC"
      and sC: "comment_step w cfg comment issueID issue ?st2 =
             ?st2\<lparr>commented := commented ?st2 + nC, errs := errs ?st2 @ wsC, events := events ?st2 @ evsC\<rparr>"
      using comment_step_attempt [of cfg comment issue issueID w ?st2] by blast
    let ?b = "((ExecGetIssue issueID, None) # evsU @ evsC, nU, nC, wsU @ wsC)"
    have "issue_block (UpdateLinkedIssues cfg \<and> rs \<noteq> []) rs (AddReleaseComment cfg \<and> comment \<noteq> [])
        comment issueID ?b"
      unfolding issue_block_def prod.case
      by (intro disjI2 exI conjI) (rule refl | rule aU | rule aC)+
    moreover have "processIssue w cfg rs comment issueID st =
        st\<lparr>updated := updated st + block_updated ?b, commented := commented st + block_commented ?b,
           errs := errs st @ block_warnings ?b, events := events st @ block_events ?b\<rparr>"
      using g tr Inr sC sU
      by (simp add: processIssue_def err_of_def block_updated_def block_commented_def
            block_warnings_def block_events_def)
    ultimately show ?thesis by blast
  qed
qed

lemma fold_processIssue_blocks:
  "\<exists>blocks.
     list_all2 (issue_block (UpdateLinkedIssues cfg \<and> rs \<noteq> []) rs
                  (AddReleaseComment cfg \<and> comment \<noteq> []) comment) issueIDs blocks \<and>
     fold (processIssue w cfg rs comment) issueIDs st =
       st\<lparr>updated := updated st + sum_list (map block_updated blocks),
          commented := commented st + sum_list (map block_commented blocks),
          errs := errs st @ concat (map block_warnings blocks),
          events := events st @ concat (map block_events blocks)\<rparr>"
proof (induction issueIDs arbitrary: st)
  case Nil
  show ?case by (intro exI [of _ "[]"]) simp
next
  case (Cons issueID issueIDs)
  let ?P = "issue_block (UpdateLinkedIssues cfg \<and> rs \<noteq> []) rs (AddReleaseComment cfg \<and> comment \<noteq> []) comment"
  obtain b where b: "?P issueID b"
    and s: "processIssue w cfg rs comment issueID st =
       st\<lparr>updated := updated st + block_updated b, commented := commented st + block_commented b,
          errs := errs st @ block_warnings b, events := events st @ block_events b\<rparr>"
    using processIssue_block [of cfg rs comment issueID w st] by blast
  let ?st1 = "processIssue w cfg rs comment issueID st"
  obtain blocks where bs: "list_all2 ?P issueIDs blocks"
    and f: "fold (processIssue w cfg rs comment) issueIDs ?st1 =
       ?st1\<lparr>updated := updated ?st1 + sum_list (map block_updated blocks),
          commented := commented ?st1 + sum_list (map block_commented blocks),
          errs := errs ?st1 @ concat (map block_warnings blocks),
          events := events ?st1 @ concat (map block_events blocks)\<rparr>"
    using Cons.IH [of ?st1] by blast
  have "list_all2 ?P (issueID # issueIDs) (b # blocks)" using b bs by simp
  moreover have "fold (processIssue w cfg rs comment) (issueID # issueIDs) st =
       st\<lparr>updated := updated st + sum_list (map block_updated (b # blocks)),
          commented := commented st + sum_list (map block_commented (b # blocks)),
          errs := errs st @ concat (map block_warnings (b # blocks)),
          events := events st @ concat (map block_events (b # blocks))\<rparr>"
    using f s by simp
  ultimately show ?case by blast
qed

lemma run_blocks:
  assumes "linked_setup w cfg releaseCtx team tr0 = (rs, comment, errs0, cfg1, tr1)"
  shows "\<exists>blocks.
     list_all2 (issue_block (UpdateLinkedIssues cfg1 \<and> rs \<noteq> []) rs
                  (AddReleaseComment cfg1 \<and> comment \<noteq> []) comment) issueIDs blocks \<and>
     processLinkedIssues w cfg releaseCtx team issueIDs tr0 =
       (sum_list (map block_updated blocks), sum_list (map block_commented blocks),
        errs0 @ concat (map block_warnings blocks), cfg1,
        tr1 @ concat (map block_events blocks))"
proof -
  let ?st = "\<lparr>updated = 0, commented = 0, errs = errs0, events = tr1\<rparr>"
  obtain blocks where bs: "list_all2 (issue_block (UpdateLinkedIssues cfg1 \<and> rs \<noteq> []) rs
                  (AddReleaseComment cfg1 \<and> comment \<noteq> []) comment) issueIDs blocks"
    and f: "fold (processIssue w cfg1 rs comment) issueIDs ?st =
       ?st\<lparr>updated := updated ?st + sum_list (map block_updated blocks),
          commented := commented ?st + sum_list (map block_commented blocks),
          errs := errs ?st @ concat (map block_warnings blocks),
          events := events ?st @ concat (map block_events blocks)\<rparr>"
    using fold_processIssue_blocks [of cfg1 rs comment issueIDs w ?st] by blast
  have "processLinkedIssues w cfg releaseCtx team issueIDs tr0 =
       (sum_list (map block_updated blocks), sum_list (map block_commented blocks),
        errs0 @ concat (map block_warnings blocks), cfg1,
        tr1 @ concat (map block_events blocks))"
    using assms f by (simp add: processLinkedIssues_def)
  with bs show ?thesis by blast
qed


subsection \<open>Claims about the loop\<close>

text \<open>
  C2. A run of \<open>processLinkedIssues\<close> is the sequence of the blocks of its identifiers, one per
  identifier and in their order, after what the set-up left: a failed fetch gives one
  warning and neither a state update nor a comment, and the loop goes on with the next
  identifier; after a successful fetch the comment is attempted whether or not the state
  update failed; each counter is the number of the operations that succeeded; every
  identifier has its block whatever happened to the ones before it.
\<close>

theorem processLinkedIssues_per_issue:
  assumes "linked_setup w cfg releaseCtx team tr0 = (rs, comment, errs0, cfg1, tr1)"
  shows "\<exists>blocks.
     list_all2 (issue_block (UpdateLinkedIssues cfg1 \<and> rs \<noteq> []) rs
                  (AddReleaseComment cfg1 \<and> comment \<noteq> []) comment) issueIDs blocks \<and>
     processLinkedIssues w cfg releaseCtx team issueIDs tr0 =
       (sum_list (map block_updated blocks), sum_list (map block_commented blocks),
        errs0 @ concat (map block_warnings blocks), cfg1,
        tr1 @ concat (map block_events blocks))"
  using assms by (rule run_blocks)

theorem processLinkedIssues_per_issue_witness:
  "linked_setup example_world example_config example_context example_team [] =
     (''s3'', ''Released in 1.2.3'', [], example_config, [(TimeNow, None)]) \<and>
   processLinkedIssues example_world example_config example_context example_team
       [''ENG-1'', ''ENG-2'', ''ENG-3''] [] =
     (1, 2,
      [''Issue ENG-2 not found: issue ENG-2 not found'',
       ''Failed to update ENG-3: GraphQL error: forbidden''],
      example_config,
      [(TimeNow, None),
       (ExecGetIssue ''ENG-1'', None), (ExecUpdateIssueState ''id-1'' ''s3'', None),
       (ExecAddComment ''id-1'' ''Released in 1.2.3'', None),
       (ExecGetIssue ''ENG-2'', Some ''issue ENG-2 not found''),
       (ExecGetIssue ''ENG-3'', None),
       (ExecUpdateIssueState ''id-3'' ''s3'', Some ''GraphQL error: forbidden''),
       (ExecAddComment ''id-3'' ''Released in 1.2.3'', None)]) \<and>
   (\<exists>blocks.
      list_all2 (issue_block (UpdateLinkedIssues example_config \<and> ''s3'' \<noteq> []) ''s3''
                   (AddReleaseComment example_config \<and> ''Released in 1.2.3'' \<noteq> [])
                   ''Released in 1.2.3'')
        [''ENG-1'', ''ENG-2'', ''ENG-3''] blocks \<and>
      processLinkedIssues example_world example_config example_context example_team
          [''ENG-1'', ''ENG-2'', ''ENG-3''] [] =
        (sum_list (map block_updated blocks), sum_list (map block_commented blocks),
         [] @ concat (map block_warnings blocks), example_config,
         [(TimeNow, None)] @ concat (map block_events blocks)))"
proof -
  have s: "linked_setup example_world example_config example_context example_team [] =
     (''s3'', ''Released in 1.2.3'', [], example_config, [(TimeNow, None)])"
    by code_simp
  have p: "processLinkedIssues example_world example_config example_context example_team
       [''ENG-1'', ''ENG-2'', ''ENG-3''] [] =
     (1, 2,
      [''Issue ENG-2 not found: issue ENG-2 not found'',
       ''Failed to update ENG-3: GraphQL error: forbidden''],
      example_config,
      [(TimeNow, None),
       (ExecGetIssue ''ENG-1'', None), (ExecUpdateIssueState ''id-1'' ''s3'', None),
       (ExecAddComment ''id-1'' ''Released in 1.2.3'', None),
       (ExecGetIssue ''ENG-2'', Some ''issue ENG-2 not found''),
       (ExecGetIssue ''ENG-3'', None),
       (ExecUpdateIssueState ''id-3'' ''s3'', Some ''GraphQL error: forbidden''),
       (ExecAddComment ''id-3'' ''Released in 1.2.3'', None)])"
    by code_simp
  show ?thesis
    using s p processLinkedIssues_per_issue [OF s, of "[''ENG-1'', ''ENG-2'', ''ENG-3'']"]
    by blast
qed


subsection \<open>What the blocks of a run contain\<close>

lemma attempt_cases:
  assumes "attempt active c msg evs n ws"
  obtains "\<not> active" "evs = []" "n = 0" "ws = []"
  | "active" "evs = [(c, None)]" "n = 1" "ws = []"
  | e where "active" "evs = [(c, Some e)]" "n = 0" "ws = [msg @ e]"
  using assms unfolding attempt_def by (auto split: if_splits)

lemma starts_with_append [simp]: "starts_with p (p @ s)"
  by (simp add: starts_with_def)

lemma block_facts:
  assumes "issue_block upd rs com comment issueID b"
  shows "\<forall>e\<in>set (block_events b). fst e \<noteq> TimeNow \<and>
           (\<forall>i body. fst e = ExecAddComment i body \<longrightarrow> body = comment \<and> com) \<and>
           (\<forall>i s. fst e = ExecUpdateIssueState i s \<longrightarrow> s = rs \<and> upd)"
    and "\<not> upd \<Longrightarrow> block_updated b = 0"
    and "\<not> com \<Longrightarrow> block_commented b = 0"
    and "\<forall>x\<in>set (block_warnings b).
           starts_with ''Issue '' x \<or> (upd \<and> starts_with ''Failed to update '' x) \<or>
           (com \<and> starts_with ''Failed to add comment to '' x)"
    and "com \<Longrightarrow> length (filter (\<lambda>e. is_comment (fst e)) (block_events b))
                   = length (filter ok_fetch (block_events b))"
proof -
  obtain evs n_upd n_com ws where b: "b = (evs, n_upd, n_com, ws)" by (cases b) auto
  from assms consider
    (fail) e where "evs = [(ExecGetIssue issueID, Some e)]" "n_upd = 0" "n_com = 0"
        "ws = [''Issue '' @ issueID @ '' not found: '' @ e]"
  | (ok) iid evsU evsC wsU wsC where
        "evs = (ExecGetIssue issueID, None) # evsU @ evsC" "ws = wsU @ wsC"
        "attempt upd (ExecUpdateIssueState iid rs) (''Failed to update '' @ issueID @ '': '') evsU n_upd wsU"
        "attempt com (ExecAddComment iid comment) (''Failed to add comment to '' @ issueID @ '': '') evsC n_com wsC"
    unfolding issue_block_def b by auto
  then have
    "(\<forall>e\<in>set evs. fst e \<noteq> TimeNow \<and>
           (\<forall>i body. fst e = ExecAddComment i body \<longrightarrow> body = comment \<and> com) \<and>
           (\<forall>i s. fst e = ExecUpdateIssueState i s \<longrightarrow> s = rs \<and> upd)) \<and>
     (\<not> upd \<longrightarrow> n_upd = 0) \<and> (\<not> com \<longrightarrow> n_com = 0) \<and>
     (\<forall>x\<in>set ws. starts_with ''Issue '' x \<or> (upd \<and> starts_with ''Failed to update '' x) \<or>
           (com \<and> starts_with ''Failed to add comment to '' x)) \<and>
     (com \<longrightarrow> length (filter (\<lambda>e. is_comment (fst e)) evs) = length (filter ok_fetch evs))"
  proof cases
    case fail
    have "starts_with ''Issue '' (''Issue '' @ issueID @ '' not found: '' @ e)"
      by (rule starts_with_append)
    then show ?thesis using fail by (simp add: ok_fetch_def del: append.simps)
  next
    case ok
    have sU: "starts_with ''Failed to update '' ((''Failed to update '' @ issueID @ '': '') @ x)" for x
      using starts_with_append [of "''Failed to update ''" "issueID @ '': '' @ x"] by simp
    have sC: "starts_with ''Failed to add comment to '' ((''Failed to add comment to '' @ issueID @ '': '') @ x)" for x
      using starts_with_append [of "''Failed to add comment to ''" "issueID @ '': '' @ x"] by simp
    from ok(3) show ?thesis
    proof (cases rule: attempt_cases)
      case 1
      note U = 1
      from ok(4) show ?thesis
      proof (cases rule: attempt_cases)
        case 1 then show ?thesis using U ok(1,2) by (simp add: ok_fetch_def)
      next
        case 2 then show ?thesis using U ok(1,2) by (simp add: ok_fetch_def)
      next
        case (3 e) then show ?thesis using U ok(1,2) sC [of e] by (simp add: ok_fetch_def del: append.simps)
      qed
    next
      case 2
      note U = 2
      from ok(4) show ?thesis
      proof (cases rule: attempt_cases)
        case 1 then show ?thesis using U ok(1,2) by (simp add: ok_fetch_def)
      next
        case 2 then show ?thesis using U ok(1,2) by (simp add: ok_fetch_def)
      next
        case (3 e) then show ?thesis using U ok(1,2) sC [of e] by (simp add: ok_fetch_def del: append.simps)
      qed
    next
      case (3 e')
      note U = 3
      from ok(4) show ?thesis
      proof (cases rule: attempt_cases)
        case 1 then show ?thesis using U ok(1,2) sU [of e'] by (simp add: ok_fetch_def del: append.simps)
      next
        case 2 then show ?thesis using U ok(1,2) sU [of e'] by (simp add: ok_fetch_def del: append.simps)
      next
        case (3 e) then show ?thesis using U ok(1,2) sU [of e'] sC [of e]
          by (simp add: ok_fetch_def del: append.simps)
      qed
    qed
  qed
  then show
    "\<forall>e\<in>set (block_events b). fst e \<noteq> TimeNow \<and>
           (\<forall>i body. fst e = ExecAddComment i body \<longrightarrow> body = comment \<and> com) \<and>
           (\<forall>i s. fst e = ExecUpdateIssueState i s \<longrightarrow> s = rs \<and> upd)"
    "\<not> upd \<Longrightarrow> block_updated b = 0"
    "\<not> com \<Longrightarrow> block_commented b = 0"
    "\<forall>x\<in>set (block_warnings b).
           starts_with ''Issue '' x \<or> (upd \<and> starts_with ''Failed to update '' x) \<or>
           (com \<and> starts_with ''Failed to add comment to '' x)"
    "com \<Longrightarrow> length (filter (\<lambda>e. is_comment (fst e)) (block_events b))
                   = length (filter ok_fetch (block_events b))"
    by (simp_all add: b block_events_def block_updated_def block_commented_def block_warnings_def)
qed


lemma blocks_facts:
  assumes "list_all2 (issue_block upd rs com comment) issueIDs blocks"
  shows "\<forall>e\<in>set (concat (map block_events blocks)). fst e \<noteq> TimeNow \<and>
           (\<forall>i body. fst e = ExecAddComment i body \<longrightarrow> body = comment \<and> com) \<and>
           (\<forall>i s. fst e = ExecUpdateIssueState i s \<longrightarrow> s = rs \<and> upd)"
    and "\<not> upd \<Longrightarrow> sum_list (map block_updated blocks) = 0"
    and "\<not> com \<Longrightarrow> sum_list (map block_commented blocks) = 0"
    and "\<forall>x\<in>set (concat (map block_warnings blocks)).
           starts_with ''Issue '' x \<or> (upd \<and> starts_with ''Failed to update '' x) \<or>
           (com \<and> starts_with ''Failed to add comment to '' x)"
    and "com \<Longrightarrow> length (filter (\<lambda>e. is_comment (fst e)) (concat (map block_events blocks)))
                   = length (filter ok_fetch (concat (map block_events blocks)))"
  using assms
proof (induction issueIDs blocks rule: list_all2_induct)
  case Nil
  { case 1 show ?case by simp }
  { case 2 show ?case by simp }
  { case 3 show ?case by simp }
  { case 4 show ?case by simp }
  { case 5 show ?case by simp }
next
  case (Cons issueID issueIDs b blocks)
  note f = block_facts [OF Cons.hyps(1)]
  { case 1 show ?case using f(1) Cons.IH(1) by (simp only: list.map concat.simps set_append) blast }
  { case 2 then show ?case using f(2) Cons.IH(2) by simp }
  { case 3 then show ?case using f(3) Cons.IH(3) by simp }
  { case 4 show ?case using f(4) Cons.IH(4) by (simp only: list.map concat.simps set_append) blast }
  { case 5 then show ?case using f(5) Cons.IH(5) by simp }
qed

lemma starts_with_shorter:
  assumes "starts_with p x" "length q \<le> length p"
  shows "starts_with q x = (take (length q) p = q)"
proof -
  have p: "take (length p) x = p" using assms(1) by (simp add: starts_with_def)
  have "take (length q) (take (length p) x) = take (length q) x"
    using assms(2) by (simp add: min_def)
  then have "take (length q) p = take (length q) x" unfolding p .
  then show ?thesis by (simp add: starts_with_def)
qed

lemma not_has_state: "\<not> has_state ef name states \<Longrightarrow> find_released ef states name = []"
  by (induction states) auto


text \<open>What the set-up leaves behind.\<close>

lemma renderTemplate_events:
  "snd (renderTemplate w tr t releaseCtx) =
     (if tmplParse w t = None then tr @ [(TimeNow, None)] else tr)"
  by (simp add: renderTemplate_def Let_def split: option.splits)

lemma linked_setup_off:
  assumes "\<not> AddReleaseComment cfg"
  shows "linked_setup w cfg releaseCtx team tr0 =
     (if UpdateLinkedIssues cfg \<and> ReleasedState cfg \<noteq> []
      then find_released (stringsEqualFold w) (team_States team) (ReleasedState cfg) else [],
      [],
      if UpdateLinkedIssues cfg \<and> ReleasedState cfg \<noteq> [] \<and>
         find_released (stringsEqualFold w) (team_States team) (ReleasedState cfg) = []
      then [''State '' @ quote @ ReleasedState cfg @ quote @ '' not found in team workflow'']
      else [],
      cfg, tr0)"
  using assms by (auto simp add: linked_setup_def Let_def simp del: append.simps)

lemma linked_setup_failed:
  assumes "AddReleaseComment cfg" "renderTemplate w tr0 (CommentTemplate cfg) releaseCtx = (Inl e, tr')"
  shows "linked_setup w cfg releaseCtx team tr0 =
     (if UpdateLinkedIssues cfg \<and> ReleasedState cfg \<noteq> []
      then find_released (stringsEqualFold w) (team_States team) (ReleasedState cfg) else [],
      [],
      (if UpdateLinkedIssues cfg \<and> ReleasedState cfg \<noteq> [] \<and>
         find_released (stringsEqualFold w) (team_States team) (ReleasedState cfg) = []
       then [''State '' @ quote @ ReleasedState cfg @ quote @ '' not found in team workflow'']
       else []) @ [''Failed to render comment template: '' @ e],
      cfg\<lparr>AddReleaseComment := False\<rparr>, tr')"
  using assms by (auto simp add: linked_setup_def Let_def simp del: append.simps)

lemma linked_setup_rendered:
  assumes "AddReleaseComment cfg" "renderTemplate w tr0 (CommentTemplate cfg) releaseCtx = (Inr c, tr')"
  shows "linked_setup w cfg releaseCtx team tr0 =
     (if UpdateLinkedIssues cfg \<and> ReleasedState cfg \<noteq> []
      then find_released (stringsEqualFold w) (team_States team) (ReleasedState cfg) else [],
      c,
      if UpdateLinkedIssues cfg \<and> ReleasedState cfg \<noteq> [] \<and>
         find_released (stringsEqualFold w) (team_States team) (ReleasedState cfg) = []
      then [''State '' @ quote @ ReleasedState cfg @ quote @ '' not found in team workflow'']
      else [],
      cfg, tr')"
  using assms by (auto simp add: linked_setup_def Let_def simp del: append.simps)

lemma linked_setup_facts:
  assumes "linked_setup w cfg releaseCtx team tr0 = (rs, comment, errs0, cfg1, tr1)"
  shows "rs = (if UpdateLinkedIssues cfg \<and> ReleasedState cfg \<noteq> []
               then find_released (stringsEqualFold w) (team_States team) (ReleasedState cfg)
               else [])"
    and "comment = (if AddReleaseComment cfg
                    then text_of (fst (renderTemplate w tr0 (CommentTemplate cfg) releaseCtx))
                    else [])"
    and "tr1 = (if AddReleaseComment cfg \<and> tmplParse w (CommentTemplate cfg) = None
                then tr0 @ [(TimeNow, None)] else tr0)"
    and "UpdateLinkedIssues cfg1 = UpdateLinkedIssues cfg"
    and "comment \<noteq> [] \<Longrightarrow> AddReleaseComment cfg1"
    and "errs0 =
           (if UpdateLinkedIssues cfg \<and> ReleasedState cfg \<noteq> [] \<and> rs = []
            then [''State '' @ quote @ ReleasedState cfg @ quote @ '' not found in team workflow'']
            else []) @
           (if AddReleaseComment cfg
            then (case fst (renderTemplate w tr0 (CommentTemplate cfg) releaseCtx) of
                    Inl e \<Rightarrow> [''Failed to render comment template: '' @ e]
                  | Inr _ \<Rightarrow> [])
            else [])"
proof -
  define R where "R = fst (renderTemplate w tr0 (CommentTemplate cfg) releaseCtx)"
  define T where "T = snd (renderTemplate w tr0 (CommentTemplate cfg) releaseCtx)"
  define F where "F = find_released (stringsEqualFold w) (team_States team) (ReleasedState cfg)"
  define S where "S = ''State '' @ quote @ ReleasedState cfg @ quote @ '' not found in team workflow''"
  define U where "U = (UpdateLinkedIssues cfg \<and> ReleasedState cfg \<noteq> [])"
  define A where "A = AddReleaseComment cfg"
  define P where "P = (tmplParse w (CommentTemplate cfg) = None)"
  have r: "renderTemplate w tr0 (CommentTemplate cfg) releaseCtx = (R, T)"
    by (simp add: R_def T_def)
  have T: "T = (if P then tr0 @ [(TimeNow, None)] else tr0)"
    using renderTemplate_events [of w tr0 "CommentTemplate cfg" releaseCtx] by (simp add: T_def P_def)
  have u1: "UpdateLinkedIssues cfg = UpdateLinkedIssues (cfg\<lparr>AddReleaseComment := False\<rparr>)"
    by simp
  consider (off) "\<not> A" | (failed) e where "A" "R = Inl e" | (rendered) c where "A" "R = Inr c"
    by (cases R) auto
  then have main:
    "rs = (if U then F else []) \<and> comment = (if A then text_of R else []) \<and>
     tr1 = (if A \<and> P then tr0 @ [(TimeNow, None)] else tr0) \<and>
     UpdateLinkedIssues cfg1 = UpdateLinkedIssues cfg \<and>
     (comment \<noteq> [] \<longrightarrow> AddReleaseComment cfg1) \<and>
     errs0 = (if U \<and> rs = [] then [S] else []) @
             (if A then (case R of Inl e \<Rightarrow> [''Failed to render comment template: '' @ e]
                         | Inr _ \<Rightarrow> []) else [])"
  proof cases
    case off
    then have "\<not> AddReleaseComment cfg" by (simp add: A_def)
    from linked_setup_off [OF this, of w releaseCtx team tr0]
    have "(rs, comment, errs0, cfg1, tr1) = (if U then F else [], [], if U \<and> F = [] then [S] else [], cfg, tr0)"
      unfolding assms F_def [symmetric] S_def [symmetric] U_def [symmetric] conj_assoc [symmetric] by simp
    then show ?thesis using off by auto
  next
    case failed
    then have a: "AddReleaseComment cfg" by (simp add: A_def)
    from linked_setup_failed [OF a, of w tr0 releaseCtx e T team] r failed(2)
    have "(rs, comment, errs0, cfg1, tr1) =
        (if U then F else [], [], (if U \<and> F = [] then [S] else []) @ [''Failed to render comment template: '' @ e],
         cfg\<lparr>AddReleaseComment := False\<rparr>, T)"
      unfolding assms F_def [symmetric] S_def [symmetric] U_def [symmetric] conj_assoc [symmetric] by simp
    then show ?thesis using failed T u1 by (auto simp: text_of_def)
  next
    case rendered
    then have a: "AddReleaseComment cfg" by (simp add: A_def)
    from linked_setup_rendered [OF a, of w tr0 releaseCtx c T team] r rendered(2)
    have "(rs, comment, errs0, cfg1, tr1) = (if U then F else [], c, if U \<and> F = [] then [S] else [], cfg, T)"
      unfolding assms F_def [symmetric] S_def [symmetric] U_def [symmetric] conj_assoc [symmetric] by simp
    then show ?thesis using rendered T a by (auto simp: text_of_def)
  qed
  have unU: "(U \<and> rs = []) = (UpdateLinkedIssues cfg \<and> ReleasedState cfg \<noteq> [] \<and> rs = [])"
    by (simp add: U_def)
  from main show
    "rs = (if UpdateLinkedIssues cfg \<and> ReleasedState cfg \<noteq> []
               then find_released (stringsEqualFold w) (team_States team) (ReleasedState cfg)
               else [])"
    "comment = (if AddReleaseComment cfg
                    then text_of (fst (renderTemplate w tr0 (CommentTemplate cfg) releaseCtx))
                    else [])"
    "tr1 = (if AddReleaseComment cfg \<and> tmplParse w (CommentTemplate cfg) = None
                then tr0 @ [(TimeNow, None)] else tr0)"
    "UpdateLinkedIssues cfg1 = UpdateLinkedIssues cfg"
    "comment \<noteq> [] \<Longrightarrow> AddReleaseComment cfg1"
    "errs0 =
           (if UpdateLinkedIssues cfg \<and> ReleasedState cfg \<noteq> [] \<and> rs = []
            then [''State '' @ quote @ ReleasedState cfg @ quote @ '' not found in team workflow'']
            else []) @
           (if AddReleaseComment cfg
            then (case fst (renderTemplate w tr0 (CommentTemplate cfg) releaseCtx) of
                    Inl e \<Rightarrow> [''Failed to render comment template: '' @ e]
                  | Inr _ \<Rightarrow> [])
            else [])"
    unfolding unU unfolding U_def A_def P_def S_def F_def R_def by blast+
qed


lemma starts_with_agree:
  assumes "starts_with p x" "starts_with q x"
  shows "take (min (length p) (length q)) p = take (min (length p) (length q)) q"
proof -
  have p: "take (length p) x = p" and q: "take (length q) x = q"
    using assms by (simp_all add: starts_with_def)
  have "take (min (length p) (length q)) (take (length p) x) = take (min (length p) (length q)) x"
    by simp
  moreover have "take (min (length p) (length q)) (take (length q) x) = take (min (length p) (length q)) x"
    by simp
  ultimately show ?thesis unfolding p q by simp
qed

lemma filter_single: "filter P X = [] \<Longrightarrow> P S \<Longrightarrow> filter P ([S] @ X) = [S]"
  by simp

lemma filter_front: "filter P ws = [] \<Longrightarrow> filter P es = [S] \<Longrightarrow> filter P (es @ ws) = [S]"
  by simp

lemma run_events:
  assumes "tr = (if c then tr0 @ [(TimeNow, None)] else tr0) @ evs"
  shows "drop (length tr0) tr = (if c then (TimeNow, None) # evs else evs)"
  using assms by simp

lemma missing_state_facts:
  assumes init: "linked_setup w cfg releaseCtx team tr0 = (rs, comment, errs0, cfg1, tr1)"
    and exec: "processLinkedIssues w cfg releaseCtx team issueIDs tr0 =
                (n_updated, n_commented, warnings, cfg2, tr)"
  shows
    "(UpdateLinkedIssues cfg \<and> ReleasedState cfg \<noteq> [] \<and>
      \<not> has_state (stringsEqualFold w) (ReleasedState cfg) (team_States team) \<longrightarrow>
        filter (starts_with ''State '') warnings =
          [''State '' @ quote @ ReleasedState cfg @ quote @ '' not found in team workflow''] \<and>
        n_updated = 0 \<and>
        (\<forall>e\<in>set (drop (length tr0) tr). \<not> is_update (fst e)) \<and>
        (comment \<noteq> [] \<longrightarrow>
           length (filter (\<lambda>e. is_comment (fst e)) (drop (length tr0) tr)) =
           length (filter ok_fetch (drop (length tr0) tr)))) \<and>
     rs = (if UpdateLinkedIssues cfg \<and> ReleasedState cfg \<noteq> []
           then find_released (stringsEqualFold w) (team_States team) (ReleasedState cfg) else []) \<and>
     comment = (if AddReleaseComment cfg
                then text_of (fst (renderTemplate w tr0 (CommentTemplate cfg) releaseCtx)) else []) \<and>
     tr1 = (if AddReleaseComment cfg \<and> tmplParse w (CommentTemplate cfg) = None
            then tr0 @ [(TimeNow, None)] else tr0) \<and>
     take (length tr1) tr = tr1 \<and>
     (\<forall>e\<in>set (drop (length tr1) tr). fst e \<noteq> TimeNow \<and>
        (\<forall>i body. fst e = ExecAddComment i body \<longrightarrow> body = comment) \<and>
        (\<forall>i s. fst e = ExecUpdateIssueState i s \<longrightarrow> s = rs))"
proof -
  let ?upd = "UpdateLinkedIssues cfg1 \<and> rs \<noteq> []" and ?com = "AddReleaseComment cfg1 \<and> comment \<noteq> []"
  obtain blocks where bs: "list_all2 (issue_block ?upd rs ?com comment) issueIDs blocks"
    and r: "processLinkedIssues w cfg releaseCtx team issueIDs tr0 =
       (sum_list (map block_updated blocks), sum_list (map block_commented blocks),
        errs0 @ concat (map block_warnings blocks), cfg1,
        tr1 @ concat (map block_events blocks))"
    using run_blocks [OF init] by blast
  let ?evs = "concat (map block_events blocks)" and ?ws = "concat (map block_warnings blocks)"
  from exec r have nu: "n_updated = sum_list (map block_updated blocks)"
    and w: "warnings = errs0 @ ?ws" and tr: "tr = tr1 @ ?evs" by simp_all
  note f = blocks_facts [OF bs]
  note s = linked_setup_facts [OF init]
  have d1: "drop (length tr1) tr = ?evs" using tr by simp
  have loop: "\<forall>e\<in>set (drop (length tr1) tr). fst e \<noteq> TimeNow \<and>
        (\<forall>i body. fst e = ExecAddComment i body \<longrightarrow> body = comment) \<and>
        (\<forall>i s. fst e = ExecUpdateIssueState i s \<longrightarrow> s = rs)"
    unfolding d1
  proof
    fix e assume "e \<in> set ?evs"
    with f(1) have "fst e \<noteq> TimeNow \<and>
           (\<forall>i body. fst e = ExecAddComment i body \<longrightarrow> body = comment \<and> ?com) \<and>
           (\<forall>i s. fst e = ExecUpdateIssueState i s \<longrightarrow> s = rs \<and> ?upd)" by (rule bspec)
    then show "fst e \<noteq> TimeNow \<and>
        (\<forall>i body. fst e = ExecAddComment i body \<longrightarrow> body = comment) \<and>
        (\<forall>i s. fst e = ExecUpdateIssueState i s \<longrightarrow> s = rs)" by blast
  qed
  have dr: "drop (length tr0) tr =
      (if AddReleaseComment cfg \<and> tmplParse w (CommentTemplate cfg) = None
       then (TimeNow, None) # ?evs else ?evs)"
  proof (cases "AddReleaseComment cfg \<and> tmplParse w (CommentTemplate cfg) = None")
    case True
    then have "tr = tr0 @ (TimeNow, None) # ?evs" using tr s(3) by simp
    then show ?thesis using True by simp
  next
    case False
    then have "tr = tr0 @ ?evs" using tr s(3) by simp
    then show ?thesis using False by simp
  qed
  have missing: "filter (starts_with ''State '') warnings =
          [''State '' @ quote @ ReleasedState cfg @ quote @ '' not found in team workflow''] \<and>
        n_updated = 0 \<and>
        (\<forall>e\<in>set (drop (length tr0) tr). \<not> is_update (fst e)) \<and>
        (comment \<noteq> [] \<longrightarrow>
           length (filter (\<lambda>e. is_comment (fst e)) (drop (length tr0) tr)) =
           length (filter ok_fetch (drop (length tr0) tr)))"
    if h: "UpdateLinkedIssues cfg" "ReleasedState cfg \<noteq> []"
      "\<not> has_state (stringsEqualFold w) (ReleasedState cfg) (team_States team)"
  proof -
    have rs: "rs = []" using s(1) h not_has_state [OF h(3)] by simp
    then have nupd: "\<not> ?upd" by simp
    have "n_updated = 0" using nu f(2) [OF nupd] by simp
    moreover have "\<forall>e\<in>set ?evs. \<not> is_update (fst e)"
    proof
      fix e assume "e \<in> set ?evs"
      then have "\<forall>i s. fst e = ExecUpdateIssueState i s \<longrightarrow> ?upd" using f(1) by blast
      then show "\<not> is_update (fst e)" using nupd by (cases "fst e") auto
    qed
    then have "\<forall>e\<in>set (drop (length tr0) tr). \<not> is_update (fst e)"
      unfolding dr by simp
    moreover have "comment \<noteq> [] \<longrightarrow>
           length (filter (\<lambda>e. is_comment (fst e)) (drop (length tr0) tr)) =
           length (filter ok_fetch (drop (length tr0) tr))"
    proof
      assume c: "comment \<noteq> []"
      then have "?com" using s(5) by simp
      then have "length (filter (\<lambda>e. is_comment (fst e)) ?evs) = length (filter ok_fetch ?evs)"
        by (rule f(5))
      then show "length (filter (\<lambda>e. is_comment (fst e)) (drop (length tr0) tr)) =
           length (filter ok_fetch (drop (length tr0) tr))"
        unfolding dr by (simp add: ok_fetch_def)
    qed
    moreover have "filter (starts_with ''State '') warnings =
          [''State '' @ quote @ ReleasedState cfg @ quote @ '' not found in team workflow'']"
    proof -
      let ?S = "''State '' @ quote @ ReleasedState cfg @ quote @ '' not found in team workflow''"
      have nf: "\<not> starts_with ''State '' (''Failed to render comment template: '' @ e)" for e
        by (simp add: starts_with_def)
      have "\<not> starts_with ''State '' x" if "x \<in> set ?ws" for x
      proof -
        from f(4) that consider "starts_with ''Issue '' x" | "starts_with ''Failed to update '' x"
          | "starts_with ''Failed to add comment to '' x" by blast
        then show ?thesis
        proof cases
          case 1 then show ?thesis using starts_with_shorter [of "''Issue ''" x "''State ''"] by simp
        next
          case 2 then show ?thesis
            using starts_with_shorter [of "''Failed to update ''" x "''State ''"] by simp
        next
          case 3 then show ?thesis
            using starts_with_shorter [of "''Failed to add comment to ''" x "''State ''"] by simp
        qed
      qed
      then have "filter (starts_with ''State '') ?ws = []" by (simp add: filter_empty_conv)
      moreover have "filter (starts_with ''State '') errs0 = [?S]"
      proof -
        let ?X = "if AddReleaseComment cfg
            then (case fst (renderTemplate w tr0 (CommentTemplate cfg) releaseCtx) of
                    Inl e \<Rightarrow> [''Failed to render comment template: '' @ e]
                  | Inr _ \<Rightarrow> [])
            else []"
        have e0: "errs0 = [?S] @ ?X" using s(6) h rs by (simp only: if_True simp_thms)
        have "filter (starts_with ''State '') ?X = []"
          by (cases "fst (renderTemplate w tr0 (CommentTemplate cfg) releaseCtx)";
              cases "AddReleaseComment cfg"; simp add: starts_with_def)
        moreover have "starts_with ''State '' ?S" by (simp add: starts_with_def)
        ultimately show ?thesis unfolding e0 by (rule filter_single)
      qed
      ultimately show ?thesis unfolding w by (rule filter_front)
    qed
    ultimately show ?thesis by (intro conjI)
  qed
  have tk: "take (length tr1) tr = tr1" using tr by simp
  have missing': "UpdateLinkedIssues cfg \<and> ReleasedState cfg \<noteq> [] \<and>
      \<not> has_state (stringsEqualFold w) (ReleasedState cfg) (team_States team) \<longrightarrow>
        filter (starts_with ''State '') warnings =
          [''State '' @ quote @ ReleasedState cfg @ quote @ '' not found in team workflow''] \<and>
        n_updated = 0 \<and>
        (\<forall>e\<in>set (drop (length tr0) tr). \<not> is_update (fst e)) \<and>
        (comment \<noteq> [] \<longrightarrow>
           length (filter (\<lambda>e. is_comment (fst e)) (drop (length tr0) tr)) =
           length (filter ok_fetch (drop (length tr0) tr)))"
  proof
    assume "UpdateLinkedIssues cfg \<and> ReleasedState cfg \<noteq> [] \<and>
      \<not> has_state (stringsEqualFold w) (ReleasedState cfg) (team_States team)"
    then have h1: "UpdateLinkedIssues cfg" and h2: "ReleasedState cfg \<noteq> []"
      and h3: "\<not> has_state (stringsEqualFold w) (ReleasedState cfg) (team_States team)"
      by simp_all
    show "filter (starts_with ''State '') warnings =
          [''State '' @ quote @ ReleasedState cfg @ quote @ '' not found in team workflow''] \<and>
        n_updated = 0 \<and>
        (\<forall>e\<in>set (drop (length tr0) tr). \<not> is_update (fst e)) \<and>
        (comment \<noteq> [] \<longrightarrow>
           length (filter (\<lambda>e. is_comment (fst e)) (drop (length tr0) tr)) =
           length (filter ok_fetch (drop (length tr0) tr)))"
      by (rule missing [OF h1 h2 h3])
  qed
  show ?thesis
    by (rule conjI [OF missing' conjI [OF s(1) conjI [OF s(2) conjI [OF s(3) conjI [OF tk loop]]]]])
qed

text \<open>The fetches of a run are those of its identifiers, in their order.\<close>

lemma block_fetches:
  assumes "issue_block upd rs com comment issueID b"
  shows "filter is_fetch (map fst (block_events b)) = [ExecGetIssue issueID]"
proof -
  obtain evs n_upd n_com ws where b: "b = (evs, n_upd, n_com, ws)" by (cases b) auto
  from assms consider
    (fail) e where "evs = [(ExecGetIssue issueID, Some e)]"
  | (ok) iid evsU evsC wsU wsC where
        "evs = (ExecGetIssue issueID, None) # evsU @ evsC"
        "attempt upd (ExecUpdateIssueState iid rs) (''Failed to update '' @ issueID @ '': '') evsU n_upd wsU"
        "attempt com (ExecAddComment iid comment) (''Failed to add comment to '' @ issueID @ '': '') evsC n_com wsC"
    unfolding issue_block_def b by auto
  then have "filter is_fetch (map fst evs) = [ExecGetIssue issueID]"
  proof cases
    case fail
    then show ?thesis by simp
  next
    case ok
    have "filter is_fetch (map fst evsU) = []"
      using ok(2) by (cases rule: attempt_cases) simp_all
    moreover have "filter is_fetch (map fst evsC) = []"
      using ok(3) by (cases rule: attempt_cases) simp_all
    ultimately show ?thesis using ok(1) by simp
  qed
  then show ?thesis by (simp add: b block_events_def)
qed

lemma blocks_fetches:
  assumes "list_all2 (issue_block upd rs com comment) issueIDs blocks"
  shows "filter is_fetch (map fst (concat (map block_events blocks))) = map ExecGetIssue issueIDs"
  using assms
proof (induction issueIDs blocks rule: list_all2_induct)
  case Nil
  show ?case by simp
next
  case (Cons issueID issueIDs b blocks)
  show ?case using block_fetches [OF Cons.hyps(1)] Cons.IH by simp
qed

text \<open>
  C4, amended. When state updates are enabled and the configured released-state name is not
  empty and is the name of no state of the team, the run goes on: exactly one of its warnings
  is the one about the state, which names it; no state update is requested and the updated
  count is 0; and the loop is the sequence of the blocks of the identifiers, one per
  identifier and in their order, each block a failed fetch alone or a successful fetch
  followed, when the rendered comment is not empty, by the comment on the fetched issue and
  by nothing else, so that there is one comment request for every issue that was fetched. In
  every run the issues fetched are the identifiers, all of them and in their order, and the
  state id and the comment are those of the set-up: the clock is read for the one rendering
  of the comment template, before the loop, and not again; every comment request carries
  that comment and every state update that state id.
\<close>

theorem processLinkedIssues_missing_state:
  assumes init: "linked_setup w cfg releaseCtx team tr0 = (rs, comment, errs0, cfg1, tr1)"
    and exec: "processLinkedIssues w cfg releaseCtx team issueIDs tr0 =
                (n_updated, n_commented, warnings, cfg2, tr)"
  shows
    "(UpdateLinkedIssues cfg \<and> ReleasedState cfg \<noteq> [] \<and>
      \<not> has_state (stringsEqualFold w) (ReleasedState cfg) (team_States team) \<longrightarrow>
        filter (starts_with ''State '') warnings =
          [''State '' @ quote @ ReleasedState cfg @ quote @ '' not found in team workflow''] \<and>
        n_updated = 0 \<and>
        (\<forall>e\<in>set (drop (length tr0) tr). \<not> is_update (fst e)) \<and>
        (\<exists>blocks.
           list_all2 (issue_block False [] (comment \<noteq> []) comment) issueIDs blocks \<and>
           drop (length tr1) tr = concat (map block_events blocks) \<and>
           n_commented = sum_list (map block_commented blocks)) \<and>
        (comment \<noteq> [] \<longrightarrow>
           length (filter (\<lambda>e. is_comment (fst e)) (drop (length tr0) tr)) =
           length (filter ok_fetch (drop (length tr0) tr)))) \<and>
     filter is_fetch (map fst (drop (length tr1) tr)) = map ExecGetIssue issueIDs \<and>
     rs = (if UpdateLinkedIssues cfg \<and> ReleasedState cfg \<noteq> []
           then find_released (stringsEqualFold w) (team_States team) (ReleasedState cfg) else []) \<and>
     comment = (if AddReleaseComment cfg
                then text_of (fst (renderTemplate w tr0 (CommentTemplate cfg) releaseCtx)) else []) \<and>
     tr1 = (if AddReleaseComment cfg \<and> tmplParse w (CommentTemplate cfg) = None
            then tr0 @ [(TimeNow, None)] else tr0) \<and>
     take (length tr1) tr = tr1 \<and>
     (\<forall>e\<in>set (drop (length tr1) tr). fst e \<noteq> TimeNow \<and>
        (\<forall>i body. fst e = ExecAddComment i body \<longrightarrow> body = comment) \<and>
        (\<forall>i s. fst e = ExecUpdateIssueState i s \<longrightarrow> s = rs))"
proof -
  let ?upd = "UpdateLinkedIssues cfg1 \<and> rs \<noteq> []" and ?com = "AddReleaseComment cfg1 \<and> comment \<noteq> []"
  obtain blocks where bs: "list_all2 (issue_block ?upd rs ?com comment) issueIDs blocks"
    and r: "processLinkedIssues w cfg releaseCtx team issueIDs tr0 =
       (sum_list (map block_updated blocks), sum_list (map block_commented blocks),
        errs0 @ concat (map block_warnings blocks), cfg1,
        tr1 @ concat (map block_events blocks))"
    using run_blocks [OF init] by blast
  let ?evs = "concat (map block_events blocks)"
  have "(n_updated, n_commented, warnings, cfg2, tr) =
       (sum_list (map block_updated blocks), sum_list (map block_commented blocks),
        errs0 @ concat (map block_warnings blocks), cfg1, tr1 @ ?evs)"
    using exec [symmetric] r by (rule trans)
  then have nc: "n_commented = sum_list (map block_commented blocks)" and tr: "tr = tr1 @ ?evs"
    by (simp_all only: prod.inject)
  have d1: "drop (length tr1) tr = ?evs" using tr by simp
  note s = linked_setup_facts [OF init]
  note old = missing_state_facts [OF init exec]
  have fetched: "filter is_fetch (map fst (drop (length tr1) tr)) = map ExecGetIssue issueIDs"
    unfolding d1 using bs by (rule blocks_fetches)
  have com: "?com = (comment \<noteq> [])" using s(5) by blast
  have missing: "UpdateLinkedIssues cfg \<and> ReleasedState cfg \<noteq> [] \<and>
      \<not> has_state (stringsEqualFold w) (ReleasedState cfg) (team_States team) \<longrightarrow>
        filter (starts_with ''State '') warnings =
          [''State '' @ quote @ ReleasedState cfg @ quote @ '' not found in team workflow''] \<and>
        n_updated = 0 \<and>
        (\<forall>e\<in>set (drop (length tr0) tr). \<not> is_update (fst e)) \<and>
        (\<exists>blocks.
           list_all2 (issue_block False [] (comment \<noteq> []) comment) issueIDs blocks \<and>
           drop (length tr1) tr = concat (map block_events blocks) \<and>
           n_commented = sum_list (map block_commented blocks)) \<and>
        (comment \<noteq> [] \<longrightarrow>
           length (filter (\<lambda>e. is_comment (fst e)) (drop (length tr0) tr)) =
           length (filter ok_fetch (drop (length tr0) tr)))"
  proof
    assume h: "UpdateLinkedIssues cfg \<and> ReleasedState cfg \<noteq> [] \<and>
      \<not> has_state (stringsEqualFold w) (ReleasedState cfg) (team_States team)"
    then have h3: "\<not> has_state (stringsEqualFold w) (ReleasedState cfg) (team_States team)"
      by simp
    have rs: "rs = []" using s(1) h not_has_state [OF h3] by simp
    have upd: "?upd = False" using rs by simp
    have bs': "list_all2 (issue_block False [] (comment \<noteq> []) comment) issueIDs blocks"
      using bs unfolding upd com unfolding rs .
    have ex: "\<exists>blocks.
           list_all2 (issue_block False [] (comment \<noteq> []) comment) issueIDs blocks \<and>
           drop (length tr1) tr = concat (map block_events blocks) \<and>
           n_commented = sum_list (map block_commented blocks)"
      using bs' d1 nc by blast
    have o: "filter (starts_with ''State '') warnings =
          [''State '' @ quote @ ReleasedState cfg @ quote @ '' not found in team workflow''] \<and>
        n_updated = 0 \<and>
        (\<forall>e\<in>set (drop (length tr0) tr). \<not> is_update (fst e)) \<and>
        (comment \<noteq> [] \<longrightarrow>
           length (filter (\<lambda>e. is_comment (fst e)) (drop (length tr0) tr)) =
           length (filter ok_fetch (drop (length tr0) tr)))"
      using conjunct1 [OF old] h by (rule mp)
    note o1 = conjunct1 [OF o]
    note o2 = conjunct1 [OF conjunct2 [OF o]]
    note o3 = conjunct1 [OF conjunct2 [OF conjunct2 [OF o]]]
    note o4 = conjunct2 [OF conjunct2 [OF conjunct2 [OF o]]]
    show "filter (starts_with ''State '') warnings =
          [''State '' @ quote @ ReleasedState cfg @ quote @ '' not found in team workflow''] \<and>
        n_updated = 0 \<and>
        (\<forall>e\<in>set (drop (length tr0) tr). \<not> is_update (fst e)) \<and>
        (\<exists>blocks.
           list_all2 (issue_block False [] (comment \<noteq> []) comment) issueIDs blocks \<and>
           drop (length tr1) tr = concat (map block_events blocks) \<and>
           n_commented = sum_list (map block_commented blocks)) \<and>
        (comment \<noteq> [] \<longrightarrow>
           length (filter (\<lambda>e. is_comment (fst e)) (drop (length tr0) tr)) =
           length (filter ok_fetch (drop (length tr0) tr)))"
      by (rule conjI [OF o1 conjI [OF o2 conjI [OF o3 conjI [OF ex o4]]]])
  qed
  from old have rest: "rs = (if UpdateLinkedIssues cfg \<and> ReleasedState cfg \<noteq> []
           then find_released (stringsEqualFold w) (team_States team) (ReleasedState cfg) else []) \<and>
     comment = (if AddReleaseComment cfg
                then text_of (fst (renderTemplate w tr0 (CommentTemplate cfg) releaseCtx)) else []) \<and>
     tr1 = (if AddReleaseComment cfg \<and> tmplParse w (CommentTemplate cfg) = None
            then tr0 @ [(TimeNow, None)] else tr0) \<and>
     take (length tr1) tr = tr1 \<and>
     (\<forall>e\<in>set (drop (length tr1) tr). fst e \<noteq> TimeNow \<and>
        (\<forall>i body. fst e = ExecAddComment i body \<longrightarrow> body = comment) \<and>
        (\<forall>i s. fst e = ExecUpdateIssueState i s \<longrightarrow> s = rs))"
    by (rule conjunct2)
  show ?thesis by (rule conjI [OF missing conjI [OF fetched rest]])
qed


text \<open>
  C4, as stated, fails in two places. With commenting enabled, no comment is attempted when
  the comment template renders to the empty text: in the first run below the configuration
  is parsed from a released state that the team does not have and the comment template
  \<^verbatim>\<open>{{.Branch}}\<close>, the release has no branch, the comment is rendered to the empty text, the
  issue is fetched, and the run ends there, with no comment request and a comment count of 0.
  And with an empty released-state name the search for the state is skipped and no warning
  is recorded: in the second run state updates are enabled, no state of the team has the
  name, and the list of warnings is empty.
\<close>

theorem processLinkedIssues_missing_state_counterexample:
  "CommentTemplate example_config_branch = ''{{.Branch}}'' \<and>
   ReleasedState example_config_branch = ''Released'' \<and>
   UpdateLinkedIssues example_config_branch \<and>
   AddReleaseComment example_config_branch \<and>
   \<not> has_state (stringsEqualFold example_world) ''Released'' (team_States example_team) \<and>
   renderTemplate example_world [] ''{{.Branch}}'' (example_context\<lparr>Branch := []\<rparr>) =
     (Inr [], [(TimeNow, None)]) \<and>
   doGetIssue example_world [(TimeNow, None)] ''ENG-1'' =
     Inr (example_issue ''id-1'' ''ENG-1'') \<and>
   processLinkedIssues example_world example_config_branch (example_context\<lparr>Branch := []\<rparr>)
       example_team [''ENG-1''] [] =
     (0, 0, [''State '' @ quote @ ''Released'' @ quote @ '' not found in team workflow''],
      example_config_branch,
      [(TimeNow, None), (ExecGetIssue ''ENG-1'', None)]) \<and>
   UpdateLinkedIssues (example_config\<lparr>ReleasedState := []\<rparr>) \<and>
   \<not> has_state (stringsEqualFold example_world) [] (team_States example_team) \<and>
   processLinkedIssues example_world (example_config\<lparr>ReleasedState := []\<rparr>) example_context
       example_team [''ENG-1''] [] =
     (0, 1, [], example_config\<lparr>ReleasedState := []\<rparr>,
      [(TimeNow, None), (ExecGetIssue ''ENG-1'', None),
       (ExecAddComment ''id-1'' ''Released in 1.2.3'', None)])"
  by code_simp

theorem processLinkedIssues_missing_state_witness:
  "linked_setup example_world example_config_released example_context example_team [] =
     ([], ''Released in 1.2.3'',
      [''State '' @ quote @ ''Released'' @ quote @ '' not found in team workflow''],
      example_config_released, [(TimeNow, None)]) \<and>
   processLinkedIssues example_world example_config_released
       example_context example_team [''ENG-1'', ''ENG-2'', ''ENG-3''] [] =
     (0, 2,
      [''State '' @ quote @ ''Released'' @ quote @ '' not found in team workflow'',
       ''Issue ENG-2 not found: issue ENG-2 not found''],
      example_config_released,
      [(TimeNow, None), (ExecGetIssue ''ENG-1'', None),
       (ExecAddComment ''id-1'' ''Released in 1.2.3'', None),
       (ExecGetIssue ''ENG-2'', Some ''issue ENG-2 not found''),
       (ExecGetIssue ''ENG-3'', None),
       (ExecAddComment ''id-3'' ''Released in 1.2.3'', None)]) \<and>
   UpdateLinkedIssues example_config_released \<and>
   ReleasedState example_config_released \<noteq> [] \<and>
   \<not> has_state (stringsEqualFold example_world) (ReleasedState example_config_released)
       (team_States example_team) \<and>
   filter (starts_with ''State '')
       [''State '' @ quote @ ''Released'' @ quote @ '' not found in team workflow'',
        ''Issue ENG-2 not found: issue ENG-2 not found''] =
     [''State '' @ quote @ ReleasedState example_config_released
        @ quote @ '' not found in team workflow''] \<and>
   (\<exists>blocks.
      list_all2 (issue_block False [] (''Released in 1.2.3'' \<noteq> []) ''Released in 1.2.3'')
        [''ENG-1'', ''ENG-2'', ''ENG-3''] blocks \<and>
      drop (length [(TimeNow, None :: string option)])
          [(TimeNow, None), (ExecGetIssue ''ENG-1'', None),
           (ExecAddComment ''id-1'' ''Released in 1.2.3'', None),
           (ExecGetIssue ''ENG-2'', Some ''issue ENG-2 not found''),
           (ExecGetIssue ''ENG-3'', None),
           (ExecAddComment ''id-3'' ''Released in 1.2.3'', None)] =
        concat (map block_events blocks) \<and>
      2 = sum_list (map block_commented blocks)) \<and>
   length (filter (\<lambda>e. is_comment (fst e))
       (drop (length ([] :: trace))
          [(TimeNow, None), (ExecGetIssue ''ENG-1'', None),
           (ExecAddComment ''id-1'' ''Released in 1.2.3'', None),
           (ExecGetIssue ''ENG-2'', Some ''issue ENG-2 not found''),
           (ExecGetIssue ''ENG-3'', None),
           (ExecAddComment ''id-3'' ''Released in 1.2.3'', None)])) =
   length (filter ok_fetch
       (drop (length ([] :: trace))
          [(TimeNow, None), (ExecGetIssue ''ENG-1'', None),
           (ExecAddComment ''id-1'' ''Released in 1.2.3'', None),
           (ExecGetIssue ''ENG-2'', Some ''issue ENG-2 not found''),
           (ExecGetIssue ''ENG-3'', None),
           (ExecAddComment ''id-3'' ''Released in 1.2.3'', None)])) \<and>
   filter is_fetch (map fst
       (drop (length [(TimeNow, None :: string option)])
          [(TimeNow, None), (ExecGetIssue ''ENG-1'', None),
           (ExecAddComment ''id-1'' ''Released in 1.2.3'', None),
           (ExecGetIssue ''ENG-2'', Some ''issue ENG-2 not found''),
           (ExecGetIssue ''ENG-3'', None),
           (ExecAddComment ''id-3'' ''Released in 1.2.3'', None)])) =
     map ExecGetIssue [''ENG-1'', ''ENG-2'', ''ENG-3'']"
proof -
  let ?cfg = "example_config_released"
  have s: "linked_setup example_world ?cfg example_context example_team [] =
     ([], ''Released in 1.2.3'',
      [''State '' @ quote @ ''Released'' @ quote @ '' not found in team workflow''],
      ?cfg, [(TimeNow, None)])"
    by code_simp
  have p: "processLinkedIssues example_world ?cfg example_context example_team
       [''ENG-1'', ''ENG-2'', ''ENG-3''] [] =
     (0, 2,
      [''State '' @ quote @ ''Released'' @ quote @ '' not found in team workflow'',
       ''Issue ENG-2 not found: issue ENG-2 not found''],
      ?cfg,
      [(TimeNow, None), (ExecGetIssue ''ENG-1'', None),
       (ExecAddComment ''id-1'' ''Released in 1.2.3'', None),
       (ExecGetIssue ''ENG-2'', Some ''issue ENG-2 not found''),
       (ExecGetIssue ''ENG-3'', None),
       (ExecAddComment ''id-3'' ''Released in 1.2.3'', None)])"
    by code_simp
  have h: "UpdateLinkedIssues ?cfg" "ReleasedState ?cfg \<noteq> []"
    "\<not> has_state (stringsEqualFold example_world) (ReleasedState ?cfg) (team_States example_team)"
    by code_simp+
  have c: "''Released in 1.2.3'' \<noteq> []" by simp
  note t = processLinkedIssues_missing_state [OF s p]
  note m = mp [OF conjunct1 [OF t] conjI [OF h(1) conjI [OF h(2) h(3)]]]
  note m1 = conjunct1 [OF m]
  note m4 = conjunct1 [OF conjunct2 [OF conjunct2 [OF conjunct2 [OF m]]]]
  note m5 = mp [OF conjunct2 [OF conjunct2 [OF conjunct2 [OF conjunct2 [OF m]]]] c]
  note f = conjunct1 [OF conjunct2 [OF t]]
  show ?thesis
    by (rule conjI [OF s conjI [OF p conjI [OF h(1) conjI [OF h(2) conjI [OF h(3)
          conjI [OF m1 conjI [OF m4 conjI [OF m5 f]]]]]]]])
qed


text \<open>
  C9. When commenting is enabled and the comment template renders, without an error, to the
  empty text: the commented count is 0, the run requests no comment, and none of its
  warnings is about adding a comment or about rendering the comment template.
\<close>

theorem processLinkedIssues_empty_comment:
  assumes on: "AddReleaseComment cfg"
    and rendered: "renderTemplate w tr0 (CommentTemplate cfg) releaseCtx = (Inr [], tr1)"
    and exec: "processLinkedIssues w cfg releaseCtx team issueIDs tr0 =
                 (n_updated, n_commented, warnings, cfg2, tr)"
  shows "n_commented = 0 \<and>
         (\<forall>e\<in>set (drop (length tr0) tr). \<not> is_comment (fst e)) \<and>
         (\<forall>x\<in>set warnings. \<not> starts_with ''Failed to add comment'' x \<and>
                            \<not> starts_with ''Failed to render comment template'' x)"
proof -
  let ?rs = "if UpdateLinkedIssues cfg \<and> ReleasedState cfg \<noteq> []
      then find_released (stringsEqualFold w) (team_States team) (ReleasedState cfg) else []"
  let ?S = "''State '' @ quote @ ReleasedState cfg @ quote @ '' not found in team workflow''"
  let ?errs0 = "if UpdateLinkedIssues cfg \<and> ReleasedState cfg \<noteq> [] \<and>
         find_released (stringsEqualFold w) (team_States team) (ReleasedState cfg) = []
      then [?S] else []"
  have init: "linked_setup w cfg releaseCtx team tr0 = (?rs, [], ?errs0, cfg, tr1)"
    using linked_setup_rendered [OF on rendered] .
  let ?upd = "UpdateLinkedIssues cfg \<and> ?rs \<noteq> []"
  let ?com = "AddReleaseComment cfg \<and> ([] :: string) \<noteq> []"
  obtain blocks where bs: "list_all2 (issue_block ?upd ?rs ?com []) issueIDs blocks"
    and r: "processLinkedIssues w cfg releaseCtx team issueIDs tr0 =
       (sum_list (map block_updated blocks), sum_list (map block_commented blocks),
        ?errs0 @ concat (map block_warnings blocks), cfg,
        tr1 @ concat (map block_events blocks))"
    using run_blocks [OF init] by blast
  let ?evs = "concat (map block_events blocks)" and ?ws = "concat (map block_warnings blocks)"
  have "(n_updated, n_commented, warnings, cfg2, tr) =
       (sum_list (map block_updated blocks), sum_list (map block_commented blocks),
        ?errs0 @ ?ws, cfg, tr1 @ ?evs)"
    using exec [symmetric] r by (rule trans)
  then have nc: "n_commented = sum_list (map block_commented blocks)"
    and w: "warnings = ?errs0 @ ?ws" and tr: "tr = tr1 @ ?evs"
    by (simp_all only: prod.inject)
  note f = blocks_facts [OF bs]
  have ncom: "\<not> ?com" by simp
  have c0: "n_commented = 0" using nc f(3) [OF ncom] by simp
  have tr1: "tr1 = (if tmplParse w (CommentTemplate cfg) = None then tr0 @ [(TimeNow, None)] else tr0)"
    using renderTemplate_events [of w tr0 "CommentTemplate cfg" releaseCtx] rendered by simp
  have dr: "drop (length tr0) tr =
      (if tmplParse w (CommentTemplate cfg) = None then (TimeNow, None) # ?evs else ?evs)"
  proof (cases "tmplParse w (CommentTemplate cfg) = None")
    case True
    then have "tr = tr0 @ (TimeNow, None) # ?evs" using tr tr1 by simp
    then show ?thesis using True by simp
  next
    case False
    then have "tr = tr0 @ ?evs" using tr tr1 by simp
    then show ?thesis using False by simp
  qed
  have "\<forall>e\<in>set ?evs. \<not> is_comment (fst e)"
  proof
    fix e assume "e \<in> set ?evs"
    then have "\<forall>i body. fst e = ExecAddComment i body \<longrightarrow> ?com" using f(1) by blast
    then show "\<not> is_comment (fst e)" by (cases "fst e") auto
  qed
  then have nocom: "\<forall>e\<in>set (drop (length tr0) tr). \<not> is_comment (fst e)"
    unfolding dr by simp
  have quiet: "\<not> starts_with ''Failed to add comment'' x \<and>
               \<not> starts_with ''Failed to render comment template'' x" if "x \<in> set warnings" for x
  proof -
    from that w have "x \<in> set ?errs0 \<or> x \<in> set ?ws" by simp
    then consider (state) "x = ?S" | (loop) "x \<in> set ?ws"
      by (auto split: if_splits simp del: append.simps)
    then show ?thesis
    proof cases
      case state
      have "starts_with ''State '' x" unfolding state by (simp add: starts_with_def)
      then show ?thesis
        using starts_with_agree [of "''State ''" x "''Failed to add comment''"]
          starts_with_agree [of "''State ''" x "''Failed to render comment template''"]
        by auto
    next
      case loop
      with f(4) ncom consider "starts_with ''Issue '' x" | "starts_with ''Failed to update '' x"
        by blast
      then show ?thesis
      proof cases
        case 1
        then show ?thesis
          using starts_with_agree [of "''Issue ''" x "''Failed to add comment''"]
            starts_with_agree [of "''Issue ''" x "''Failed to render comment template''"]
          by auto
      next
        case 2
        then show ?thesis
          using starts_with_agree [of "''Failed to update ''" x "''Failed to add comment''"]
            starts_with_agree [of "''Failed to update ''" x "''Failed to render comment template''"]
          by auto
      qed
    qed
  qed
  then have q: "\<forall>x\<in>set warnings. \<not> starts_with ''Failed to add comment'' x \<and>
                            \<not> starts_with ''Failed to render comment template'' x"
    by (rule ballI)
  show ?thesis by (rule conjI [OF c0 conjI [OF nocom q]])
qed

theorem processLinkedIssues_empty_comment_witness:
  "AddReleaseComment (example_config\<lparr>CommentTemplate := []\<rparr>) \<and>
   renderTemplate example_world [] (CommentTemplate (example_config\<lparr>CommentTemplate := []\<rparr>))
       example_context = (Inr [], [(TimeNow, None)]) \<and>
   processLinkedIssues example_world (example_config\<lparr>CommentTemplate := []\<rparr>) example_context
       example_team [''ENG-1'', ''ENG-2'', ''ENG-3''] [] =
     (1, 0,
      [''Issue ENG-2 not found: issue ENG-2 not found'',
       ''Failed to update ENG-3: GraphQL error: forbidden''],
      example_config\<lparr>CommentTemplate := []\<rparr>,
      [(TimeNow, None),
       (ExecGetIssue ''ENG-1'', None), (ExecUpdateIssueState ''id-1'' ''s3'', None),
       (ExecGetIssue ''ENG-2'', Some ''issue ENG-2 not found''),
       (ExecGetIssue ''ENG-3'', None),
       (ExecUpdateIssueState ''id-3'' ''s3'', Some ''GraphQL error: forbidden'')]) \<and>
   \<not> starts_with ''Failed to add comment'' ''Failed to update ENG-3: GraphQL error: forbidden''"
proof -
  let ?cfg = "example_config\<lparr>CommentTemplate := []\<rparr>"
  have a: "AddReleaseComment ?cfg" by code_simp
  have r: "renderTemplate example_world [] (CommentTemplate ?cfg) example_context
      = (Inr [], [(TimeNow, None)])"
    by code_simp
  have p: "processLinkedIssues example_world ?cfg example_context
       example_team [''ENG-1'', ''ENG-2'', ''ENG-3''] [] =
     (1, 0,
      [''Issue ENG-2 not found: issue ENG-2 not found'',
       ''Failed to update ENG-3: GraphQL error: forbidden''],
      ?cfg,
      [(TimeNow, None),
       (ExecGetIssue ''ENG-1'', None), (ExecUpdateIssueState ''id-1'' ''s3'', None),
       (ExecGetIssue ''ENG-2'', Some ''issue ENG-2 not found''),
       (ExecGetIssue ''ENG-3'', None),
       (ExecUpdateIssueState ''id-3'' ''s3'', Some ''GraphQL error: forbidden'')])"
    by code_simp
  from processLinkedIssues_empty_comment [OF a r p]
  have "\<forall>x\<in>set [''Issue ENG-2 not found: issue ENG-2 not found'',
                   ''Failed to update ENG-3: GraphQL error: forbidden''].
          \<not> starts_with ''Failed to add comment'' x \<and>
          \<not> starts_with ''Failed to render comment template'' x"
    by (elim conjE)
  then have "\<not> starts_with ''Failed to add comment''
      ''Failed to update ENG-3: GraphQL error: forbidden''"
    by (simp del: starts_with_append)
  then show ?thesis using a r p by (intro conjI)
qed


section \<open>The post-publish hook\<close>

lemma renderTemplate_Changes:
  "renderTemplate w tr t (releaseCtx\<lparr>Changes := ch\<rparr>) = renderTemplate w tr t releaseCtx"
  by (simp add: renderTemplate_def Let_def split: option.splits)

lemma createReleaseIssue_Changes:
  "createReleaseIssue w cfg (releaseCtx\<lparr>Changes := ch\<rparr>) team tr =
     createReleaseIssue w cfg releaseCtx team tr"
  by (simp only: createReleaseIssue_def renderTemplate_Changes)

lemma release_issue_fails_iff:
  "release_issue_fails w cfg releaseCtx team tr =
     isl (fst (createReleaseIssue w cfg releaseCtx team tr))"
proof -
  obtain r1 t1 where R1: "renderTemplate w tr (ri_Title (ReleaseIssue cfg)) releaseCtx = (r1, t1)"
    by (cases "renderTemplate w tr (ri_Title (ReleaseIssue cfg)) releaseCtx") auto
  obtain r2 t2 where R2: "renderTemplate w t1 (ri_Description (ReleaseIssue cfg)) releaseCtx = (r2, t2)"
    by (cases "renderTemplate w t1 (ri_Description (ReleaseIssue cfg)) releaseCtx") auto
  show ?thesis
    by (cases r1; cases r2; simp add: release_issue_fails_def createReleaseIssue_def R1 R2)
qed

lemma renderTemplate_quiet:
  assumes "\<forall>e\<in>set tr. \<not> is_linked_call (fst e)"
  shows "\<forall>e\<in>set (snd (renderTemplate w tr t releaseCtx)). \<not> is_linked_call (fst e)"
  using assms by (simp add: renderTemplate_events is_linked_call_def)

lemma CreateIssue_quiet:
  assumes "\<forall>e\<in>set tr. \<not> is_linked_call (fst e)"
  shows "\<forall>e\<in>set (snd (CreateIssue w tr input)). \<not> is_linked_call (fst e)"
  using assms by (simp add: CreateIssue_def sent_def is_linked_call_def)

lemma createReleaseIssue_quiet:
  assumes "\<forall>e\<in>set tr. \<not> is_linked_call (fst e)"
  shows "\<forall>e\<in>set (snd (createReleaseIssue w cfg releaseCtx team tr)). \<not> is_linked_call (fst e)"
proof -
  obtain r1 t1 where R1: "renderTemplate w tr (ri_Title (ReleaseIssue cfg)) releaseCtx = (r1, t1)"
    by (cases "renderTemplate w tr (ri_Title (ReleaseIssue cfg)) releaseCtx") auto
  obtain r2 t2 where R2: "renderTemplate w t1 (ri_Description (ReleaseIssue cfg)) releaseCtx = (r2, t2)"
    by (cases "renderTemplate w t1 (ri_Description (ReleaseIssue cfg)) releaseCtx") auto
  have q1: "\<forall>e\<in>set t1. \<not> is_linked_call (fst e)"
    using renderTemplate_quiet [OF assms, of w "ri_Title (ReleaseIssue cfg)" releaseCtx] R1 by simp
  have q2: "\<forall>e\<in>set t2. \<not> is_linked_call (fst e)"
    using renderTemplate_quiet [OF q1, of w "ri_Description (ReleaseIssue cfg)" releaseCtx] R2 by simp
  show ?thesis
  proof (cases r1)
    case (Inl e)
    then have "snd (createReleaseIssue w cfg releaseCtx team tr) = t1"
      by (simp add: createReleaseIssue_def R1)
    then show ?thesis using q1 by simp
  next
    case (Inr title)
    note t = this
    show ?thesis
    proof (cases r2)
      case (Inl e)
      then have "snd (createReleaseIssue w cfg releaseCtx team tr) = t2"
        using t by (simp add: createReleaseIssue_def R1 R2)
      then show ?thesis using q2 by simp
    next
      case (Inr description)
      then have "\<exists>input. snd (createReleaseIssue w cfg releaseCtx team tr) =
          snd (CreateIssue w t2 input)"
        using t by (simp add: createReleaseIssue_def R1 R2) blast
      then obtain input where "snd (createReleaseIssue w cfg releaseCtx team tr) =
          snd (CreateIssue w t2 input)" by blast
      then show ?thesis using CreateIssue_quiet [OF q2, of w input] by simp
    qed
  qed
qed

lemma GetTeam_quiet: "\<forall>e\<in>set (snd (GetTeam w [] teamID teamKey)). \<not> is_linked_call (fst e)"
  by (simp add: GetTeam_def sent_def is_linked_call_def)


lemma Join_Cons: "Join (x # xs) sep = x @ (if xs = [] then [] else sep @ Join xs sep)"
  by (cases xs) simp_all

lemma text_of_failed: "isl r \<Longrightarrow> text_of r = []"
  by (cases r) (simp_all add: text_of_def)

text \<open>The lines and the trace of a dry run.\<close>

lemma dry_run_eq:
  "dry_run w cfg releaseCtx =
     ((if CreateReleaseIssue cfg
       then [''Would create release issue: ''
             @ text_of (fst (renderTemplate w [] (ri_Title (ReleaseIssue cfg)) releaseCtx))]
       else []) @
      (if UpdateLinkedIssues cfg
       then [''Would update linked issues to state: '' @ ReleasedState cfg] else []) @
      (if AddReleaseComment cfg
       then [''Would add comment to linked issues: ''
             @ text_of (fst (renderTemplate w
                 (if CreateReleaseIssue cfg
                  then snd (renderTemplate w [] (ri_Title (ReleaseIssue cfg)) releaseCtx) else [])
                 (CommentTemplate cfg) releaseCtx))]
       else []),
      (if AddReleaseComment cfg
       then snd (renderTemplate w
                 (if CreateReleaseIssue cfg
                  then snd (renderTemplate w [] (ri_Title (ReleaseIssue cfg)) releaseCtx) else [])
                 (CommentTemplate cfg) releaseCtx)
       else (if CreateReleaseIssue cfg
             then snd (renderTemplate w [] (ri_Title (ReleaseIssue cfg)) releaseCtx) else [])))"
  by (cases "CreateReleaseIssue cfg"; cases "UpdateLinkedIssues cfg"; cases "AddReleaseComment cfg";
      simp add: dry_run_def Let_def split: prod.splits del: append.simps)

lemma dry_run_quiet: "\<forall>e\<in>set (snd (dry_run w cfg releaseCtx)). fst e = TimeNow"
  by (simp add: dry_run_eq renderTemplate_events)

lemma handlePostPublish_dry:
  "handlePostPublish w cfg releaseCtx True =
     (success (fst (dry_run w cfg releaseCtx)), snd (dry_run w cfg releaseCtx))"
  by (simp add: handlePostPublish_def split: prod.splits)

subsection \<open>Claims about the hook\<close>

text \<open>
  C3. In a run that is not a dry run, with the release issue enabled: when rendering the
  title or the description of the release issue fails, or the request to create it fails
  (at the point that the run reaches once the team is resolved), the hook answers with no
  success and a non-empty error; the trace holds no fetch of an issue, no state update and
  no comment; and the answer and the trace are the same whatever the commits are, so
  nothing is extracted from them.
\<close>

theorem handlePostPublish_release_issue_failure:
  assumes "CreateReleaseIssue cfg"
    and "\<And>team tr1. GetTeam w [] (TeamID cfg) (TeamKey cfg) = (Inr team, tr1) \<Longrightarrow>
           release_issue_fails w cfg releaseCtx team tr1"
  shows "\<not> Success (fst (handlePostPublish w cfg releaseCtx False)) \<and>
         Error (fst (handlePostPublish w cfg releaseCtx False)) \<noteq> [] \<and>
         (\<forall>e\<in>set (snd (handlePostPublish w cfg releaseCtx False)). \<not> is_linked_call (fst e)) \<and>
         (\<forall>ch. handlePostPublish w cfg (releaseCtx\<lparr>Changes := ch\<rparr>) False =
                handlePostPublish w cfg releaseCtx False)"
proof -
  obtain g tr1 where g: "GetTeam w [] (TeamID cfg) (TeamKey cfg) = (g, tr1)"
    by (cases "GetTeam w [] (TeamID cfg) (TeamKey cfg)") auto
  have q1: "\<forall>e\<in>set tr1. \<not> is_linked_call (fst e)"
    using GetTeam_quiet [of w "TeamID cfg" "TeamKey cfg"] g by simp
  show ?thesis
  proof (cases g)
    case (Inl e)
    have h: "handlePostPublish w cfg (releaseCtx\<lparr>Changes := ch\<rparr>) False =
        (failure (''Failed to get team: '' @ e), tr1)" for ch
      using g Inl by (simp add: handlePostPublish_def del: append.simps)
    have h0: "handlePostPublish w cfg releaseCtx False =
        (failure (''Failed to get team: '' @ e), tr1)"
      using g Inl by (simp add: handlePostPublish_def del: append.simps)
    show ?thesis using q1 by (simp add: h h0 failure_def)
  next
    case (Inr team)
    then have gt: "GetTeam w [] (TeamID cfg) (TeamKey cfg) = (Inr team, tr1)" using g by simp
    obtain r tr2 where c: "createReleaseIssue w cfg releaseCtx team tr1 = (r, tr2)"
      by (cases "createReleaseIssue w cfg releaseCtx team tr1") auto
    from assms(2) [OF gt] have "isl r" using c by (simp add: release_issue_fails_iff)
    then obtain e where r: "r = Inl e" by (cases r) auto
    have h: "handlePostPublish w cfg releaseCtx False =
        (failure (''Failed to create release issue: '' @ e), tr2)"
      using assms(1) gt c r by (simp add: handlePostPublish_def del: append.simps)
    have h': "handlePostPublish w cfg (releaseCtx\<lparr>Changes := ch\<rparr>) False =
        (failure (''Failed to create release issue: '' @ e), tr2)" for ch
      using assms(1) gt c r
      by (simp add: handlePostPublish_def createReleaseIssue_Changes del: append.simps)
    have q2: "\<forall>e\<in>set tr2. \<not> is_linked_call (fst e)"
      using createReleaseIssue_quiet [OF q1, of w cfg releaseCtx team] c by simp
    show ?thesis using q2 by (simp add: h h' failure_def)
  qed
qed

theorem handlePostPublish_release_issue_failure_witness:
  "CreateReleaseIssue (example_config\<lparr>ReleaseIssue := (ReleaseIssue example_config)\<lparr>ri_Title := ''{{''\<rparr>\<rparr>) \<and>
   GetTeam example_world []
       (TeamID (example_config\<lparr>ReleaseIssue := (ReleaseIssue example_config)\<lparr>ri_Title := ''{{''\<rparr>\<rparr>))
       (TeamKey (example_config\<lparr>ReleaseIssue := (ReleaseIssue example_config)\<lparr>ri_Title := ''{{''\<rparr>\<rparr>))
     = (Inr example_team, [(ExecGetTeam ''team-1'', None)]) \<and>
   release_issue_fails example_world
       (example_config\<lparr>ReleaseIssue := (ReleaseIssue example_config)\<lparr>ri_Title := ''{{''\<rparr>\<rparr>)
       example_context example_team [(ExecGetTeam ''team-1'', None)] \<and>
   handlePostPublish example_world
       (example_config\<lparr>ReleaseIssue := (ReleaseIssue example_config)\<lparr>ri_Title := ''{{''\<rparr>\<rparr>)
       example_context False =
     (\<lparr>Success = False, Message = [],
       Error = ''Failed to create release issue: failed to render title template: unclosed action''\<rparr>,
      [(ExecGetTeam ''team-1'', None)]) \<and>
   \<not> Success (fst (handlePostPublish example_world
       (example_config\<lparr>ReleaseIssue := (ReleaseIssue example_config)\<lparr>ri_Title := ''{{''\<rparr>\<rparr>)
       example_context False))"
proof -
  let ?cfg = "example_config\<lparr>ReleaseIssue := (ReleaseIssue example_config)\<lparr>ri_Title := ''{{''\<rparr>\<rparr>"
  have a: "CreateReleaseIssue ?cfg" by code_simp
  have g: "GetTeam example_world [] (TeamID ?cfg) (TeamKey ?cfg)
      = (Inr example_team, [(ExecGetTeam ''team-1'', None)])"
    by code_simp
  have f: "release_issue_fails example_world ?cfg example_context example_team
      [(ExecGetTeam ''team-1'', None)]"
    by code_simp
  have f': "release_issue_fails example_world ?cfg example_context team tr1"
    if "GetTeam example_world [] (TeamID ?cfg) (TeamKey ?cfg) = (Inr team, tr1)" for team tr1
  proof -
    from that g have "team = example_team" "tr1 = [(ExecGetTeam ''team-1'', None)]" by simp_all
    then show ?thesis using f by simp
  qed
  have h: "handlePostPublish example_world ?cfg example_context False =
     (\<lparr>Success = False, Message = [],
       Error = ''Failed to create release issue: failed to render title template: unclosed action''\<rparr>,
      [(ExecGetTeam ''team-1'', None)])"
    by code_simp
  from handlePostPublish_release_issue_failure [OF a f']
  have "\<not> Success (fst (handlePostPublish example_world ?cfg example_context False))"
    by (rule conjunct1)
  then show ?thesis using a g f h by (intro conjI)
qed

text \<open>
  C7. A dry run with the release issue enabled answers with success, its message starts with
  the line that holds the rendered title of the release issue, and its trace holds no request
  to the service: only the readings of the clock by the renderer.
\<close>

theorem handlePostPublish_dry_run:
  assumes "CreateReleaseIssue cfg"
  shows "Success (fst (handlePostPublish w cfg releaseCtx True)) \<and>
         (\<exists>rest. Message (fst (handlePostPublish w cfg releaseCtx True)) =
            ''Would create release issue: ''
            @ text_of (fst (renderTemplate w [] (ri_Title (ReleaseIssue cfg)) releaseCtx)) @ rest) \<and>
         (\<forall>e\<in>set (snd (handlePostPublish w cfg releaseCtx True)). fst e = TimeNow)"
proof -
  define line where "line = ''Would create release issue: ''
      @ text_of (fst (renderTemplate w [] (ri_Title (ReleaseIssue cfg)) releaseCtx))"
  define more where "more = tl (fst (dry_run w cfg releaseCtx))"
  have l: "fst (dry_run w cfg releaseCtx) = line # more"
    unfolding more_def dry_run_eq line_def [symmetric] using assms by simp
  have "Join (line # more) ''; '' = line @ (if more = [] then [] else ''; '' @ Join more ''; '')"
    by (rule Join_Cons)
  then have "Message (fst (handlePostPublish w cfg releaseCtx True)) =
      line @ (if more = [] then [] else ''; '' @ Join more ''; '')"
    by (simp add: handlePostPublish_dry success_def l del: Join.simps)
  then have "\<exists>rest. Message (fst (handlePostPublish w cfg releaseCtx True)) = line @ rest"
    by blast
  then have "\<exists>rest. Message (fst (handlePostPublish w cfg releaseCtx True)) =
            ''Would create release issue: ''
            @ text_of (fst (renderTemplate w [] (ri_Title (ReleaseIssue cfg)) releaseCtx)) @ rest"
    unfolding line_def by (simp only: append_assoc)
  moreover have "Success (fst (handlePostPublish w cfg releaseCtx True))"
    by (simp add: handlePostPublish_dry success_def)
  moreover have "\<forall>e\<in>set (snd (handlePostPublish w cfg releaseCtx True)). fst e = TimeNow"
    using dry_run_quiet [of w cfg releaseCtx] by (simp add: handlePostPublish_dry)
  ultimately show ?thesis by (intro conjI)
qed

theorem handlePostPublish_dry_run_witness:
  "CreateReleaseIssue example_config \<and>
   handlePostPublish example_world example_config example_context True =
     (\<lparr>Success = True,
       Message = ''Would create release issue: Release 1.2.3; Would update linked issues to state: Done; Would add comment to linked issues: Released in 1.2.3'',
       Error = []\<rparr>,
      [(TimeNow, None), (TimeNow, None)]) \<and>
   text_of (fst (renderTemplate example_world [] (ri_Title (ReleaseIssue example_config))
       example_context)) = ''Release 1.2.3'' \<and>
   Success (fst (handlePostPublish example_world example_config example_context True))"
proof -
  have a: "CreateReleaseIssue example_config" by code_simp
  have h: "handlePostPublish example_world example_config example_context True =
     (\<lparr>Success = True,
       Message = ''Would create release issue: Release 1.2.3; Would update linked issues to state: Done; Would add comment to linked issues: Released in 1.2.3'',
       Error = []\<rparr>,
      [(TimeNow, None), (TimeNow, None)])"
    by code_simp
  have t: "text_of (fst (renderTemplate example_world [] (ri_Title (ReleaseIssue example_config))
       example_context)) = ''Release 1.2.3''"
    by code_simp
  from handlePostPublish_dry_run [OF a, of example_world example_context]
  have "Success (fst (handlePostPublish example_world example_config example_context True))"
    by (rule conjunct1)
  then show ?thesis using a h t by (intro conjI)
qed

text \<open>
  C10. A dry run drops the renderer's errors: it always answers with success and no error,
  and its message is made of lines among which, when the title of the release issue is
  enabled and fails to render, is \<^verbatim>\<open>Would create release issue: \<close> with nothing after it, and
  when the comment is enabled and fails to render, \<^verbatim>\<open>Would add comment to linked issues: \<close>
  with nothing after it.
\<close>

theorem handlePostPublish_dry_run_render_errors:
  "Success (fst (handlePostPublish w cfg releaseCtx True)) \<and>
   Error (fst (handlePostPublish w cfg releaseCtx True)) = [] \<and>
   (\<exists>lines. Message (fst (handlePostPublish w cfg releaseCtx True)) = Join lines ''; '' \<and>
      (CreateReleaseIssue cfg \<and>
       isl (fst (renderTemplate w [] (ri_Title (ReleaseIssue cfg)) releaseCtx)) \<longrightarrow>
         ''Would create release issue: '' \<in> set lines) \<and>
      (AddReleaseComment cfg \<and>
       isl (fst (renderTemplate w
              (if CreateReleaseIssue cfg
               then snd (renderTemplate w [] (ri_Title (ReleaseIssue cfg)) releaseCtx) else [])
              (CommentTemplate cfg) releaseCtx)) \<longrightarrow>
         ''Would add comment to linked issues: '' \<in> set lines))"
proof -
  let ?lines = "fst (dry_run w cfg releaseCtx)"
  have m: "Message (fst (handlePostPublish w cfg releaseCtx True)) = Join ?lines ''; ''"
    by (simp add: handlePostPublish_dry success_def)
  have c: "''Would create release issue: '' \<in> set ?lines"
    if "CreateReleaseIssue cfg" "isl (fst (renderTemplate w [] (ri_Title (ReleaseIssue cfg)) releaseCtx))"
    using that by (simp add: dry_run_eq text_of_failed)
  have d: "''Would add comment to linked issues: '' \<in> set ?lines"
    if "AddReleaseComment cfg"
      "isl (fst (renderTemplate w
              (if CreateReleaseIssue cfg
               then snd (renderTemplate w [] (ri_Title (ReleaseIssue cfg)) releaseCtx) else [])
              (CommentTemplate cfg) releaseCtx))"
    using that by (simp add: dry_run_eq text_of_failed)
  have "Success (fst (handlePostPublish w cfg releaseCtx True))"
    "Error (fst (handlePostPublish w cfg releaseCtx True)) = []"
    by (simp_all add: handlePostPublish_dry success_def)
  then show ?thesis using m c d by blast
qed

theorem handlePostPublish_dry_run_render_errors_witness:
  "CreateReleaseIssue (example_config\<lparr>CommentTemplate := ''{{'',
       ReleaseIssue := (ReleaseIssue example_config)\<lparr>ri_Title := ''{{''\<rparr>\<rparr>) \<and>
   AddReleaseComment (example_config\<lparr>CommentTemplate := ''{{'',
       ReleaseIssue := (ReleaseIssue example_config)\<lparr>ri_Title := ''{{''\<rparr>\<rparr>) \<and>
   renderTemplate example_world [] ''{{'' example_context = (Inl ''unclosed action'', []) \<and>
   handlePostPublish example_world
       (example_config\<lparr>CommentTemplate := ''{{'',
          ReleaseIssue := (ReleaseIssue example_config)\<lparr>ri_Title := ''{{''\<rparr>\<rparr>)
       example_context True =
     (\<lparr>Success = True,
       Message = ''Would create release issue: ; Would update linked issues to state: Done; Would add comment to linked issues: '',
       Error = []\<rparr>,
      []) \<and>
   Success (fst (handlePostPublish example_world
       (example_config\<lparr>CommentTemplate := ''{{'',
          ReleaseIssue := (ReleaseIssue example_config)\<lparr>ri_Title := ''{{''\<rparr>\<rparr>)
       example_context True))"
proof -
  let ?cfg = "example_config\<lparr>CommentTemplate := ''{{'',
       ReleaseIssue := (ReleaseIssue example_config)\<lparr>ri_Title := ''{{''\<rparr>\<rparr>"
  have a: "CreateReleaseIssue ?cfg" "AddReleaseComment ?cfg" by code_simp+
  have r: "renderTemplate example_world [] ''{{'' example_context = (Inl ''unclosed action'', [])"
    by code_simp
  have h: "handlePostPublish example_world ?cfg example_context True =
     (\<lparr>Success = True,
       Message = ''Would create release issue: ; Would update linked issues to state: Done; Would add comment to linked issues: '',
       Error = []\<rparr>,
      [])"
    by code_simp
  from handlePostPublish_dry_run_render_errors [of example_world ?cfg example_context]
  have "Success (fst (handlePostPublish example_world ?cfg example_context True))"
    by (rule conjunct1)
  then show ?thesis using a r h by (intro conjI)
qed


end
